theory Spec2Isabelle
  imports Main
begin

section \<open>High voltage generator: PWM period and pulse width\<close>

text \<open>
  The constants of \<^verbatim>\<open>ardunixFade9_6_digit.ino\<close> that bound the PWM period
  (\<^verbatim>\<open>pwmTop\<close>) and the PWM pulse width (\<^verbatim>\<open>pwmOn\<close>).
\<close>

definition PWM_TOP_DEFAULT :: int where "PWM_TOP_DEFAULT = 1000"
definition PWM_TOP_MIN :: int where "PWM_TOP_MIN = 300"
definition PWM_TOP_MAX :: int where "PWM_TOP_MAX = 10000"
definition PWM_PULSE_DEFAULT :: int where "PWM_PULSE_DEFAULT = 200"
definition PWM_PULSE_MIN :: int where "PWM_PULSE_MIN = 50"
definition PWM_PULSE_MAX :: int where "PWM_PULSE_MAX = 500"
definition PWM_OFF_MIN :: int where "PWM_OFF_MIN = 50"

text \<open>
  The variables of the generator: the globals \<^verbatim>\<open>pwmTop\<close>, \<^verbatim>\<open>pwmOn\<close> and
  \<^verbatim>\<open>rawHVADCThreshold\<close> (all \<^verbatim>\<open>int\<close>) and the two timer registers the
  setters write, \<^verbatim>\<open>ICR1\<close> and \<^verbatim>\<open>OCR1A\<close>. The source's \<^verbatim>\<open>int\<close> has 16 bits;
  every value computed below from a state inside the bounds lies between \<open>0\<close> and
  \<open>10001\<close>, so no operation wraps and the values are HOL integers.
\<close>

record hvgen =
  pwmTop :: int
  pwmOn :: int
  rawHVADCThreshold :: int
  ICR1 :: int
  OCR1A :: int

text \<open>
  \<^verbatim>\<open>setPWMTopTime\<close>: three successive \<^verbatim>\<open>if\<close> statements overwrite the argument,
  then the register and the global are stored.
\<close>

definition setPWMTopTime :: "int \<Rightarrow> hvgen \<Rightarrow> hvgen" where
  "setPWMTopTime newTopTime s =
     (let t1 = (if newTopTime < PWM_TOP_MIN then PWM_TOP_MIN else newTopTime);
          t2 = (if t1 > PWM_TOP_MAX then PWM_TOP_MAX else t1);
          t3 = (if t2 < pwmOn s + PWM_OFF_MIN then pwmOn s + PWM_OFF_MIN else t2)
      in s\<lparr>ICR1 := t3, pwmTop := t3\<rparr>)"

text \<open>\<^verbatim>\<open>setPWMOnTime\<close>: the same shape, against the pulse bounds and the period.\<close>

definition setPWMOnTime :: "int \<Rightarrow> hvgen \<Rightarrow> hvgen" where
  "setPWMOnTime newOnTime s =
     (let t1 = (if newOnTime < PWM_PULSE_MIN then PWM_PULSE_MIN else newOnTime);
          t2 = (if t1 > PWM_PULSE_MAX then PWM_PULSE_MAX else t1);
          t3 = (if t2 > pwmTop s - PWM_OFF_MIN then pwmTop s - PWM_OFF_MIN else t2)
      in s\<lparr>OCR1A := t3, pwmOn := t3\<rparr>)"

definition incPWMOnTime :: "hvgen \<Rightarrow> hvgen" where
  "incPWMOnTime s = setPWMOnTime (pwmOn s + 1) s"

definition decPWMOnTime :: "hvgen \<Rightarrow> hvgen" where
  "decPWMOnTime s = setPWMOnTime (pwmOn s - 1) s"

text \<open>
  \<^verbatim>\<open>checkHVVoltage\<close> compares the value returned by
  \<^verbatim>\<open>getSmoothedHVSensorReading()\<close> with the threshold. That value comes from the ADC
  and a \<^verbatim>\<open>double\<close> moving average; it is the argument \<open>reading\<close> here.
\<close>

definition checkHVVoltage :: "int \<Rightarrow> hvgen \<Rightarrow> hvgen" where
  "checkHVVoltage reading s =
     (if reading > rawHVADCThreshold s
      then setPWMTopTime (pwmTop s + 1) s
      else setPWMTopTime (pwmTop s - 1) s)"

text \<open>
  The second pass of \<^verbatim>\<open>calibrateHVG\<close>. The threshold is stored, the pulse width is set
  to its minimum, and the loop runs \<open>i = 0, ..., 767\<close>. Each iteration shows the pulse
  width on the tubes (\<^verbatim>\<open>loadNumberArrayConfInt\<close>, \<^verbatim>\<open>allBright\<close>,
  \<^verbatim>\<open>outputDisplay\<close>, which write none of the variables of \<open>hvgen\<close>), takes one
  smoothed reading, here \<open>reading i\<close>, and
  \<^verbatim>\<open>if (reading < rawHVADCThreshold) { if ((i % 8) == 0) { incPWMOnTime(); } }\<close>.
  The threshold \<^verbatim>\<open>getRawHVADCThreshold(hvTargetVoltage)\<close> is computed in
  \<^verbatim>\<open>double\<close>; it is the argument \<open>threshold\<close>.
\<close>

definition pass2Body :: "(nat \<Rightarrow> int) \<Rightarrow> nat \<Rightarrow> hvgen \<Rightarrow> hvgen" where
  "pass2Body reading i s =
     (if reading i < rawHVADCThreshold s
      then (if i mod 8 = 0 then incPWMOnTime s else s)
      else s)"

definition pass2Loop :: "(nat \<Rightarrow> int) \<Rightarrow> nat \<Rightarrow> hvgen \<Rightarrow> hvgen" where
  "pass2Loop reading n s = fold (pass2Body reading) [0..<n] s"

definition calibratePass2 :: "int \<Rightarrow> (nat \<Rightarrow> int) \<Rightarrow> hvgen \<Rightarrow> hvgen" where
  "calibratePass2 threshold reading s =
     pass2Loop reading 768 (setPWMOnTime PWM_PULSE_MIN (s\<lparr>rawHVADCThreshold := threshold\<rparr>))"

text \<open>
  The clamp of the specification, \<open>clamp(x, lo, hi)\<close>: below \<open>lo\<close> gives \<open>lo\<close>, above
  \<open>hi\<close> gives \<open>hi\<close>.
\<close>

definition clamp :: "int \<Rightarrow> int \<Rightarrow> int \<Rightarrow> int" where
  "clamp x lo hi = (if x < lo then lo else if hi < x then hi else x)"

text \<open>The power-on values of the globals.\<close>

definition hvDefault :: hvgen where
  "hvDefault = \<lparr>pwmTop = PWM_TOP_DEFAULT, pwmOn = PWM_PULSE_DEFAULT,
     rawHVADCThreshold = 0, ICR1 = 0, OCR1A = 0\<rparr>"


section \<open>Digit display: one call of outputDisplay\<close>

definition DIGIT_DISPLAY_COUNT :: int where "DIGIT_DISPLAY_COUNT = 1000"
definition DIGIT_ANTI_GHOST :: int where "DIGIT_ANTI_GHOST = DIGIT_DISPLAY_COUNT + 10"
definition DIGIT_DISPLAY_ON :: int where "DIGIT_DISPLAY_ON = 0"
definition DIGIT_DISPLAY_OFF :: int where "DIGIT_DISPLAY_OFF = 999"
definition DIGIT_DISPLAY_NEVER :: int where "DIGIT_DISPLAY_NEVER = - 1"
definition DIGIT_DISPLAY_MIN_DIM :: int where "DIGIT_DISPLAY_MIN_DIM = 100"
definition DIM_VALUE :: int where "DIM_VALUE = DIGIT_DISPLAY_COUNT div 5"
definition BLINK_COUNT_MAX :: int where "BLINK_COUNT_MAX = 25"
definition FADE_STEPS_MIN :: int where "FADE_STEPS_MIN = 20"
definition FADE_STEPS_MAX :: int where "FADE_STEPS_MAX = 200"
definition SCROLL_STEPS_MIN :: int where "SCROLL_STEPS_MIN = 1"
definition SCROLL_STEPS_MAX :: int where "SCROLL_STEPS_MAX = 40"

text \<open>The display types, \<^verbatim>\<open>#define\<close>d numbers stored in a \<^verbatim>\<open>byte\<close> array.\<close>

definition BLANKED :: nat where "BLANKED = 0"
definition DIMMED :: nat where "DIMMED = 1"
definition FADE :: nat where "FADE = 2"
definition NORMAL :: nat where "NORMAL = 3"
definition BLINK :: nat where "BLINK = 4"
definition SCROLL :: nat where "SCROLL = 5"
definition BRIGHT :: nat where "BRIGHT = 6"

text \<open>
  A \<^verbatim>\<open>byte\<close> holds \<open>0, ..., 255\<close>; storing an \<^verbatim>\<open>int\<close> keeps it modulo 256.
\<close>

definition byte_of_int :: "int \<Rightarrow> nat" where
  "byte_of_int x = nat (x mod 256)"

text \<open>
  The four \<^verbatim>\<open>byte\<close> arrays of six entries, \<^verbatim>\<open>NumberArray\<close>,
  \<^verbatim>\<open>currNumberArray\<close>, \<^verbatim>\<open>displayType\<close> and \<^verbatim>\<open>fadeState\<close>, are always read and
  written at the same index \<open>i\<close>. Entry \<open>i\<close> of each is one \<open>digit\<close>, and the arrays
  are the list \<open>digits\<close> of six of them.
\<close>

record digit =
  NumberArray :: nat
  currNumberArray :: nat
  displayType :: nat
  fadeState :: nat

text \<open>
  The other globals \<^verbatim>\<open>outputDisplay\<close> reads or writes. \<^verbatim>\<open>fadeStep\<close> is a
  \<^verbatim>\<open>float\<close> that only ever receives the quotient of two \<^verbatim>\<open>int\<close>s, an integer of
  at most four digits; its product with a \<^verbatim>\<open>byte\<close> is exact in \<^verbatim>\<open>float\<close> and the
  conversion to \<^verbatim>\<open>int\<close> changes nothing, so it is an integer here.
\<close>

record display =
  digits :: "digit list"
  fadeSteps :: int
  fadeStep :: int
  digitOffCount :: int
  scrollSteps :: int
  scrollback :: bool
  blinkCounter :: int
  blinkState :: bool
  blanked :: bool

text \<open>
  The statement \<^verbatim>\<open>fadeStep = digitOffCount / fadeSteps;\<close> of \<^verbatim>\<open>loop()\<close>, an
  integer division of two non-negative \<^verbatim>\<open>int\<close>s.
\<close>

definition loopFadeStep :: "display \<Rightarrow> display" where
  "loopFadeStep st = st\<lparr>fadeStep := digitOffCount st div fadeSteps st\<rparr>"

text \<open>
  The locals \<^verbatim>\<open>digitOnTime\<close>, \<^verbatim>\<open>digitOffTime\<close> and \<^verbatim>\<open>digitSwitchTime\<close> of
  \<^verbatim>\<open>outputDisplay\<close>. They are declared without a value before the loop over the six
  digits and keep their value from one digit to the next; \<open>None\<close> is a local that has
  not been assigned since the call began.
\<close>

record timing =
  digitOnTime :: "int option"
  digitOffTime :: "int option"
  digitSwitchTime :: "int option"

definition unassigned :: timing where
  "unassigned = \<lparr>digitOnTime = None, digitOffTime = None, digitSwitchTime = None\<rparr>"

text \<open>
  The \<^verbatim>\<open>switch (tmpDispType)\<close> that chooses the on and off steps. It has no
  \<^verbatim>\<open>default\<close>: any other number leaves both locals as they were.
\<close>

definition onOffTimes :: "display \<Rightarrow> nat \<Rightarrow> timing \<Rightarrow> timing" where
  "onOffTimes g tmpDispType loc =
     (if tmpDispType = BLANKED then
        loc\<lparr>digitOnTime := Some DIGIT_DISPLAY_NEVER, digitOffTime := Some DIGIT_DISPLAY_ON\<rparr>
      else if tmpDispType = DIMMED then
        loc\<lparr>digitOnTime := Some DIGIT_DISPLAY_ON, digitOffTime := Some DIM_VALUE\<rparr>
      else if tmpDispType = BRIGHT then
        loc\<lparr>digitOnTime := Some DIGIT_DISPLAY_ON, digitOffTime := Some DIGIT_DISPLAY_OFF\<rparr>
      else if tmpDispType = FADE \<or> tmpDispType = NORMAL then
        loc\<lparr>digitOnTime := Some DIGIT_DISPLAY_ON, digitOffTime := Some (digitOffCount g)\<rparr>
      else if tmpDispType = BLINK then
        (if blinkState g then
           loc\<lparr>digitOnTime := Some DIGIT_DISPLAY_ON, digitOffTime := Some (digitOffCount g)\<rparr>
         else
           loc\<lparr>digitOnTime := Some DIGIT_DISPLAY_NEVER, digitOffTime := Some DIGIT_DISPLAY_ON\<rparr>)
      else if tmpDispType = SCROLL then
        loc\<lparr>digitOnTime := Some DIGIT_DISPLAY_ON, digitOffTime := Some (digitOffCount g)\<rparr>
      else loc)"

text \<open>
  \<^verbatim>\<open>tmpDispType\<close> as first assigned (\<^verbatim>\<open>BLANKED\<close> under the global flag, else the
  digit's \<^verbatim>\<open>displayType\<close>), and as it stands after the scrollback test
  \<^verbatim>\<open>NumberArray[i] != currNumberArray[i] && NumberArray[i] == 0 && scrollback\<close>.
\<close>

definition configuredType :: "display \<Rightarrow> digit \<Rightarrow> nat" where
  "configuredType g d = (if blanked g then BLANKED else displayType d)"

definition effectiveType :: "display \<Rightarrow> digit \<Rightarrow> nat" where
  "effectiveType g d =
     (if NumberArray d \<noteq> currNumberArray d \<and> NumberArray d = 0 \<and> scrollback g
      then SCROLL else configuredType g d)"

text \<open>The \<^verbatim>\<open>SCROLL\<close> branch, after \<^verbatim>\<open>digitSwitchTime = DIGIT_DISPLAY_OFF\<close>.\<close>

definition scrollDigit :: "display \<Rightarrow> digit \<Rightarrow> digit" where
  "scrollDigit g d =
     (if NumberArray d \<noteq> currNumberArray d then
        (let d1 = (if fadeState d = 0 then d\<lparr>fadeState := byte_of_int (scrollSteps g)\<rparr>
                   else d)
         in if fadeState d1 = 1 then
              d1\<lparr>fadeState := 0,
                 currNumberArray := byte_of_int (int (currNumberArray d1) - 1)\<rparr>
            else if fadeState d1 > 1 then
              d1\<lparr>fadeState := byte_of_int (int (fadeState d1) - 1)\<rparr>
            else d1)
      else d)"

text \<open>
  The \<^verbatim>\<open>FADE\<close> branch. \<^verbatim>\<open>(int) fadeState[i] * fadeStep\<close> reads the byte just
  stored.
\<close>

definition fadeDigit :: "display \<Rightarrow> digit \<Rightarrow> timing \<Rightarrow> digit \<times> timing" where
  "fadeDigit g d loc =
     (let (d1, loc1) =
            (if NumberArray d \<noteq> currNumberArray d \<and> fadeState d = 0 then
               (let d0 = d\<lparr>fadeState := byte_of_int (fadeSteps g)\<rparr>
                in (d0, loc\<lparr>digitSwitchTime := Some (int (fadeState d0) * fadeStep g)\<rparr>))
             else (d, loc))
      in if fadeState d1 = 1 then
           (d1\<lparr>fadeState := 0, currNumberArray := NumberArray d1\<rparr>,
            loc1\<lparr>digitSwitchTime := Some DIGIT_DISPLAY_COUNT\<rparr>)
         else if fadeState d1 > 1 then
           (let d2 = d1\<lparr>fadeState := byte_of_int (int (fadeState d1) - 1)\<rparr>
            in (d2, loc1\<lparr>digitSwitchTime := Some (int (fadeState d2) * fadeStep g)\<rparr>))
         else (d1, loc1))"

text \<open>
  The body of the loop \<^verbatim>\<open>for (int i = 0; i < 6; i++)\<close> for one digit, up to the inner
  timer loop: the new entries of the arrays and the three locals as the timer loop reads
  them. The timer loop itself counts \<^verbatim>\<open>timer\<close> from 0 to \<^verbatim>\<open>DIGIT_ANTI_GHOST - 1\<close>
  and drives the pins when \<^verbatim>\<open>timer\<close> equals one of the three locals
  (\<^verbatim>\<open>digitOn\<close>, \<^verbatim>\<open>SetSN74141Chip\<close>, \<^verbatim>\<open>digitOff\<close>); it assigns none of the
  variables modelled here.
\<close>

definition displayDigit :: "display \<Rightarrow> digit \<Rightarrow> timing \<Rightarrow> digit \<times> timing" where
  "displayDigit g d loc =
     (let loc1 = onOffTimes g (configuredType g d) loc;
          tmpDispType = effectiveType g d
      in if tmpDispType = SCROLL then
           (scrollDigit g d, loc1\<lparr>digitSwitchTime := Some DIGIT_DISPLAY_OFF\<rparr>)
         else if tmpDispType = FADE then fadeDigit g d loc1
         else (d\<lparr>currNumberArray := NumberArray d\<rparr>,
               loc1\<lparr>digitSwitchTime := Some DIGIT_DISPLAY_COUNT\<rparr>))"

text \<open>The loop over the digits, threading the locals from each digit to the next.\<close>

fun displayDigits :: "display \<Rightarrow> digit list \<Rightarrow> timing \<Rightarrow> (digit \<times> timing) list" where
  "displayDigits g [] loc = []"
| "displayDigits g (d # ds) loc =
     (let r = displayDigit g d loc in r # displayDigits g ds (snd r))"

text \<open>
  \<^verbatim>\<open>outputDisplay\<close>: the loop, then the blink counter. The result is the new state and,
  for each digit, the three locals its timer loop ran with.
\<close>

definition outputDisplay :: "display \<Rightarrow> display \<times> timing list" where
  "outputDisplay st =
     (let r = displayDigits st (digits st) unassigned;
          st1 = st\<lparr>digits := map fst r\<rparr>;
          st2 = st1\<lparr>blinkCounter := blinkCounter st1 + 1\<rparr>;
          st3 = (if blinkCounter st2 = BLINK_COUNT_MAX
                 then st2\<lparr>blinkCounter := 0, blinkState := \<not> blinkState st2\<rparr>
                 else st2)
      in (st3, map snd r))"

text \<open>
  The new array entries of a digit; they do not depend on the locals (lemma
  \<open>fst_displayDigit\<close> below).
\<close>

definition nextDigit :: "display \<Rightarrow> digit \<Rightarrow> digit" where
  "nextDigit g d = fst (displayDigit g d unassigned)"

text \<open>\<open>n\<close> successive calls of \<^verbatim>\<open>outputDisplay\<close>, nothing else touching the state.\<close>

definition impressions :: "nat \<Rightarrow> display \<Rightarrow> display" where
  "impressions n st = ((\<lambda>s. fst (outputDisplay s)) ^^ n) st"

text \<open>The locals of digit \<open>i\<close> in call number \<open>k\<close> (counted from 1) after \<open>st\<close>.\<close>

definition timingAt :: "nat \<Rightarrow> nat \<Rightarrow> display \<Rightarrow> timing" where
  "timingAt k i st = snd (outputDisplay (impressions (k - 1) st)) ! i"

text \<open>
  States for the examples: six equal digits, the given \<^verbatim>\<open>digitOffCount\<close> and
  \<^verbatim>\<open>fadeSteps\<close>, the other globals at their power-on values
  (\<^verbatim>\<open>scrollSteps = 4\<close>, \<^verbatim>\<open>scrollback = true\<close>, \<^verbatim>\<open>blinkCounter = 0\<close>,
  \<^verbatim>\<open>blinkState = true\<close>, \<^verbatim>\<open>blanked = false\<close>), and \<^verbatim>\<open>fadeStep\<close> as
  \<^verbatim>\<open>loop()\<close> computes it. \<open>idleDemo\<close> has a \<^verbatim>\<open>NORMAL\<close> digit in second place.
\<close>

definition mkDigit :: "nat \<Rightarrow> nat \<Rightarrow> nat \<Rightarrow> nat \<Rightarrow> digit" where
  "mkDigit target current type fstate =
     \<lparr>NumberArray = target, currNumberArray = current, displayType = type,
      fadeState = fstate\<rparr>"

definition mkDisplay :: "digit \<Rightarrow> int \<Rightarrow> int \<Rightarrow> display" where
  "mkDisplay d offCount steps =
     loopFadeStep \<lparr>digits = replicate 6 d, fadeSteps = steps, fadeStep = 0,
       digitOffCount = offCount, scrollSteps = 4, scrollback = True, blinkCounter = 0,
       blinkState = True, blanked = False\<rparr>"

definition fadeDemo :: display where
  "fadeDemo = mkDisplay (mkDigit 7 3 FADE 0) 1000 50"

definition scrollDemo :: display where
  "scrollDemo = mkDisplay (mkDigit 0 3 NORMAL 0) 999 50"

definition normalDemo :: display where
  "normalDemo = mkDisplay (mkDigit 7 3 NORMAL 0) 999 50"

definition dimFadeDemo :: display where
  "dimFadeDemo = mkDisplay (mkDigit 7 3 FADE 0) 100 200"

definition idleDemo :: display where
  "idleDemo = (mkDisplay (mkDigit 7 7 FADE 0) 999 50)
     \<lparr>digits := [mkDigit 7 7 FADE 0, mkDigit 7 7 NORMAL 0, mkDigit 7 7 FADE 0,
                 mkDigit 7 7 FADE 0, mkDigit 7 7 FADE 0, mkDigit 7 7 FADE 0]\<rparr>"

definition dayDemo :: display where
  "dayDemo = mkDisplay (mkDigit 7 3 FADE 0) 999 50"

text \<open>The same display under the global \<^verbatim>\<open>blanked\<close> flag.\<close>

definition blankedDemo :: display where
  "blankedDemo = (mkDisplay (mkDigit 7 3 FADE 0) 999 50)\<lparr>blanked := True\<rparr>"

text \<open>
  A digit showing 5 that was fading with two steps of its countdown left when its
  target became 0.
\<close>

definition leftoverDemo :: display where
  "leftoverDemo = mkDisplay (mkDigit 0 5 FADE 2) 999 50"

text \<open>
  PWM values as \<^verbatim>\<open>readEEPROMValues\<close> accepts them, each inside its own range, before
  \<^verbatim>\<open>setup\<close> has called the setters.
\<close>

definition hvStored :: hvgen where
  "hvStored = \<lparr>pwmTop = 300, pwmOn = 500, rawHVADCThreshold = 0, ICR1 = 0, OCR1A = 0\<rparr>"


section \<open>The constants, for unfolding\<close>

lemmas pwm_consts =
  PWM_TOP_DEFAULT_def PWM_TOP_MIN_def PWM_TOP_MAX_def
  PWM_PULSE_DEFAULT_def PWM_PULSE_MIN_def PWM_PULSE_MAX_def PWM_OFF_MIN_def

lemmas display_consts =
  DIGIT_DISPLAY_COUNT_def DIGIT_ANTI_GHOST_def DIGIT_DISPLAY_ON_def DIGIT_DISPLAY_OFF_def
  DIGIT_DISPLAY_NEVER_def DIGIT_DISPLAY_MIN_DIM_def DIM_VALUE_def BLINK_COUNT_MAX_def
  FADE_STEPS_MIN_def FADE_STEPS_MAX_def SCROLL_STEPS_MIN_def SCROLL_STEPS_MAX_def

lemmas display_types =
  BLANKED_def DIMMED_def FADE_def NORMAL_def BLINK_def SCROLL_def BRIGHT_def


section \<open>Properties of the PWM setters\<close>

lemma setPWMOnTime_pwmOn:
  "pwmOn (setPWMOnTime x s) =
     min (min PWM_PULSE_MAX (max PWM_PULSE_MIN x)) (pwmTop s - PWM_OFF_MIN)"
  by (simp add: setPWMOnTime_def Let_def pwm_consts)

lemma setPWMOnTime_frame:
  "pwmTop (setPWMOnTime x s) = pwmTop s"
  "rawHVADCThreshold (setPWMOnTime x s) = rawHVADCThreshold s"
  "OCR1A (setPWMOnTime x s) = pwmOn (setPWMOnTime x s)"
  by (simp_all add: setPWMOnTime_def Let_def)

lemma setPWMTopTime_pwmTop:
  "pwmTop (setPWMTopTime x s) =
     max (pwmOn s + PWM_OFF_MIN) (min PWM_TOP_MAX (max PWM_TOP_MIN x))"
  by (simp add: setPWMTopTime_def Let_def pwm_consts)

lemma setPWMTopTime_frame:
  "pwmOn (setPWMTopTime x s) = pwmOn s"
  "rawHVADCThreshold (setPWMTopTime x s) = rawHVADCThreshold s"
  "ICR1 (setPWMTopTime x s) = pwmTop (setPWMTopTime x s)"
  by (simp_all add: setPWMTopTime_def Let_def)

text \<open>
  C2. After a call of \<^verbatim>\<open>setPWMOnTime\<close> and after a call of \<^verbatim>\<open>setPWMTopTime\<close>,
  with any argument and from any state whatever, \<open>pwmOn + PWM_OFF_MIN \<le> pwmTop\<close>
  holds: the last \<^verbatim>\<open>if\<close> of each setter establishes the margin, it need not hold
  before. From a state whose period and pulse width are inside their ranges
  (\<open>PWM_TOP_MIN \<le> pwmTop \<le> PWM_TOP_MAX\<close>, \<open>pwmOn \<le> PWM_PULSE_MAX\<close>) the period
  stays inside \<open>[PWM_TOP_MIN, PWM_TOP_MAX]\<close> and the pulse width does not exceed
  \<open>PWM_PULSE_MAX\<close>.
\<close>

theorem pwm_invariant_preserved:
  "pwmOn (setPWMOnTime x s) + PWM_OFF_MIN \<le> pwmTop (setPWMOnTime x s)
   \<and> pwmOn (setPWMTopTime y s) + PWM_OFF_MIN \<le> pwmTop (setPWMTopTime y s)
   \<and> PWM_TOP_MIN \<le> pwmTop (setPWMTopTime y s)
   \<and> pwmOn (setPWMOnTime x s) \<le> PWM_PULSE_MAX
   \<and> (PWM_TOP_MIN \<le> pwmTop s \<and> pwmTop s \<le> PWM_TOP_MAX \<and> pwmOn s \<le> PWM_PULSE_MAX \<longrightarrow>
        PWM_TOP_MIN \<le> pwmTop (setPWMOnTime x s)
      \<and> pwmTop (setPWMOnTime x s) \<le> PWM_TOP_MAX
      \<and> pwmTop (setPWMTopTime y s) \<le> PWM_TOP_MAX
      \<and> pwmOn (setPWMTopTime y s) \<le> PWM_PULSE_MAX)"
  by (auto simp add: setPWMOnTime_pwmOn setPWMOnTime_frame setPWMTopTime_pwmTop
      setPWMTopTime_frame pwm_consts)

text \<open>
  The state \<open>hvStored\<close> has \<open>pwmTop = 300\<close> and \<open>pwmOn = 500\<close>, both inside their
  ranges as \<^verbatim>\<open>readEEPROMValues\<close> checks them, with the margin violated. Either
  setter restores it.
\<close>

theorem pwm_invariant_preserved_witness:
  "PWM_TOP_MIN \<le> pwmTop hvStored \<and> pwmTop hvStored \<le> PWM_TOP_MAX
   \<and> pwmOn hvStored \<le> PWM_PULSE_MAX
   \<and> \<not> pwmOn hvStored + PWM_OFF_MIN \<le> pwmTop hvStored
   \<and> pwmOn (setPWMOnTime 500 hvStored) = 250
   \<and> pwmOn (setPWMOnTime 500 hvStored) + PWM_OFF_MIN \<le> pwmTop (setPWMOnTime 500 hvStored)
   \<and> pwmTop (setPWMOnTime 500 hvStored) \<le> PWM_TOP_MAX
   \<and> pwmTop (setPWMTopTime 300 hvStored) = 550
   \<and> pwmOn (setPWMTopTime 300 hvStored) + PWM_OFF_MIN \<le> pwmTop (setPWMTopTime 300 hvStored)
   \<and> pwmTop (setPWMTopTime 300 hvStored) \<le> PWM_TOP_MAX"
  using pwm_invariant_preserved [of 500 hvStored 300]
  by (simp add: hvStored_def setPWMOnTime_def setPWMTopTime_def Let_def pwm_consts)


text \<open>
  Where the lower bound does not exceed the upper one, the clamp is the composition of
  \<open>max\<close> and \<open>min\<close> in either order.
\<close>

lemma clamp_min_max: "lo \<le> hi \<Longrightarrow> clamp x lo hi = min hi (max lo x)"
  by (simp add: clamp_def)

text \<open>
  C3. One correction step of the regulator: when the smoothed reading exceeds the
  threshold the period becomes \<open>pwmTop + 1\<close>, otherwise \<open>pwmTop - 1\<close>; that value is
  clamped to \<open>[PWM_TOP_MIN, PWM_TOP_MAX]\<close> and then raised to at least
  \<open>pwmOn + PWM_OFF_MIN\<close>. The pulse width is not changed and the register \<open>ICR1\<close>
  receives the new period.
\<close>

theorem checkHVVoltage_step:
  "(rawHVADCThreshold s < reading \<longrightarrow>
      pwmTop (checkHVVoltage reading s) =
        max (pwmOn s + PWM_OFF_MIN) (clamp (pwmTop s + 1) PWM_TOP_MIN PWM_TOP_MAX))
   \<and> (\<not> rawHVADCThreshold s < reading \<longrightarrow>
      pwmTop (checkHVVoltage reading s) =
        max (pwmOn s + PWM_OFF_MIN) (clamp (pwmTop s - 1) PWM_TOP_MIN PWM_TOP_MAX))
   \<and> PWM_TOP_MIN \<le> pwmTop (checkHVVoltage reading s)
   \<and> pwmOn s + PWM_OFF_MIN \<le> pwmTop (checkHVVoltage reading s)
   \<and> pwmOn (checkHVVoltage reading s) = pwmOn s
   \<and> ICR1 (checkHVVoltage reading s) = pwmTop (checkHVVoltage reading s)"
  by (auto simp add: checkHVVoltage_def setPWMTopTime_pwmTop setPWMTopTime_frame clamp_def
      pwm_consts)

theorem checkHVVoltage_step_witness:
  "rawHVADCThreshold hvDefault < 5
   \<and> pwmTop (checkHVVoltage 5 hvDefault) = 1001
   \<and> \<not> rawHVADCThreshold hvDefault < 0
   \<and> pwmTop (checkHVVoltage 0 hvDefault) = 999"
  using checkHVVoltage_step [of hvDefault 5] checkHVVoltage_step [of hvDefault 0]
  by (simp add: hvDefault_def clamp_def pwm_consts)

text \<open>
  C4. Reading \<open>pwmOn\<close> back after \<^verbatim>\<open>setPWMOnTime(x)\<close>, for every \<open>x\<close> and every prior
  state: the value is \<open>x\<close> raised to \<open>PWM_PULSE_MIN\<close> and then cut at
  \<open>min(PWM_PULSE_MAX, pwmTop - PWM_OFF_MIN)\<close>. Whenever that interval is not empty,
  which every state with \<open>PWM_TOP_MIN \<le> pwmTop\<close> satisfies, this is
  \<open>clamp(x, PWM_PULSE_MIN, min(PWM_PULSE_MAX, pwmTop - PWM_OFF_MIN))\<close>. The register
  \<open>OCR1A\<close> holds the same value.
\<close>

theorem setPWMOnTime_roundtrip:
  "pwmOn (setPWMOnTime x s) =
     min (min PWM_PULSE_MAX (pwmTop s - PWM_OFF_MIN)) (max PWM_PULSE_MIN x)
   \<and> (PWM_PULSE_MIN \<le> min PWM_PULSE_MAX (pwmTop s - PWM_OFF_MIN) \<longrightarrow>
        pwmOn (setPWMOnTime x s) =
          clamp x PWM_PULSE_MIN (min PWM_PULSE_MAX (pwmTop s - PWM_OFF_MIN)))
   \<and> (PWM_TOP_MIN \<le> pwmTop s \<longrightarrow>
        pwmOn (setPWMOnTime x s) =
          clamp x PWM_PULSE_MIN (min PWM_PULSE_MAX (pwmTop s - PWM_OFF_MIN)))
   \<and> OCR1A (setPWMOnTime x s) = pwmOn (setPWMOnTime x s)"
  by (auto simp add: setPWMOnTime_pwmOn setPWMOnTime_frame clamp_def pwm_consts)

theorem setPWMOnTime_roundtrip_witness:
  "PWM_PULSE_MIN \<le> min PWM_PULSE_MAX (pwmTop hvDefault - PWM_OFF_MIN)
   \<and> PWM_TOP_MIN \<le> pwmTop hvDefault
   \<and> pwmOn (setPWMOnTime 7 hvDefault) = 50
   \<and> clamp 7 PWM_PULSE_MIN (min PWM_PULSE_MAX (pwmTop hvDefault - PWM_OFF_MIN)) = 50"
  using setPWMOnTime_roundtrip [of 7 hvDefault]
  by (simp add: hvDefault_def clamp_def pwm_consts)


section \<open>Calibration, second pass\<close>

lemma pass2Loop_Suc:
  "pass2Loop reading (Suc n) s = pass2Body reading n (pass2Loop reading n s)"
  by (simp add: pass2Loop_def)

lemma pass2Body_frame:
  "pwmTop (pass2Body reading i s) = pwmTop s"
  "rawHVADCThreshold (pass2Body reading i s) = rawHVADCThreshold s"
  by (simp_all add: pass2Body_def incPWMOnTime_def setPWMOnTime_frame)

lemma pass2Loop_frame:
  "pwmTop (pass2Loop reading n s) = pwmTop s
   \<and> rawHVADCThreshold (pass2Loop reading n s) = rawHVADCThreshold s"
  by (induction n) (simp_all add: pass2Loop_def pass2Body_frame)

lemma div8_step:
  "(Suc n + 7) div 8 = (if n mod 8 = 0 then Suc ((n + 7) div 8) else (n + 7) div 8)"
  by presburger

lemma pass2Loop_pwmOn:
  assumes below: "\<forall>i<n. reading i < rawHVADCThreshold s"
    and lo: "PWM_PULSE_MIN \<le> pwmOn s"
    and hi: "pwmOn s \<le> min PWM_PULSE_MAX (pwmTop s - PWM_OFF_MIN)"
  shows "pwmOn (pass2Loop reading n s) =
           min (pwmOn s + int ((n + 7) div 8)) (min PWM_PULSE_MAX (pwmTop s - PWM_OFF_MIN))"
  using below
proof (induction n)
  case 0
  from hi show ?case by (simp add: pass2Loop_def)
next
  case (Suc n)
  let ?t = "pass2Loop reading n s"
  have ih: "pwmOn ?t =
      min (pwmOn s + int ((n + 7) div 8)) (min PWM_PULSE_MAX (pwmTop s - PWM_OFF_MIN))"
    using Suc by simp
  have fr: "pwmTop ?t = pwmTop s" "rawHVADCThreshold ?t = rawHVADCThreshold s"
    using pass2Loop_frame [of reading n s] by simp_all
  have rd: "reading n < rawHVADCThreshold ?t"
    using Suc.prems fr by simp
  show ?case
  proof (cases "n mod 8 = 0")
    case True
    have "pwmOn (pass2Loop reading (Suc n) s) = pwmOn (incPWMOnTime ?t)"
      using rd True by (simp add: pass2Loop_Suc pass2Body_def)
    also have "\<dots> = min (min PWM_PULSE_MAX (max PWM_PULSE_MIN (pwmOn ?t + 1)))
                        (pwmTop s - PWM_OFF_MIN)"
      by (simp add: incPWMOnTime_def setPWMOnTime_pwmOn fr)
    also have "\<dots> = min (pwmOn s + int ((Suc n + 7) div 8))
                        (min PWM_PULSE_MAX (pwmTop s - PWM_OFF_MIN))"
      using lo hi True unfolding ih div8_step by (simp add: min_def max_def)
    finally show ?thesis .
  next
    case False
    have "pwmOn (pass2Loop reading (Suc n) s) = pwmOn ?t"
      using False by (simp add: pass2Loop_Suc pass2Body_def)
    then show ?thesis
      using False unfolding ih div8_step by simp
  qed
qed

text \<open>
  C7. Second calibration pass with the smoothed reading below the threshold in each of
  the 768 iterations: the pulse width starts at \<open>PWM_PULSE_MIN\<close> and ends at
  \<open>PWM_PULSE_MIN + 96\<close>, one increment for each \<open>i\<close> with \<open>i mod 8 = 0\<close>, cut at
  \<open>PWM_PULSE_MAX\<close> (and at \<open>pwmTop - PWM_OFF_MIN\<close>) where that is smaller. The same
  loop entered with any pulse width \<open>p\<close> inside the bounds ends at \<open>p + 96\<close> cut at the
  same bound.
\<close>

theorem calibratePass2_increments:
  assumes "\<forall>i<768. reading i < threshold"
    and "PWM_TOP_MIN \<le> pwmTop s"
  shows "pwmOn (calibratePass2 threshold reading s) = PWM_PULSE_MIN + 96
       \<and> pwmOn (calibratePass2 threshold reading s) =
           min (PWM_PULSE_MIN + 96) (min PWM_PULSE_MAX (pwmTop s - PWM_OFF_MIN))
       \<and> (\<forall>t. rawHVADCThreshold t = threshold \<and> PWM_PULSE_MIN \<le> pwmOn t
              \<and> pwmOn t \<le> min PWM_PULSE_MAX (pwmTop t - PWM_OFF_MIN) \<longrightarrow>
            pwmOn (pass2Loop reading 768 t) =
              min (pwmOn t + 96) (min PWM_PULSE_MAX (pwmTop t - PWM_OFF_MIN)))"
proof -
  let ?s0 = "setPWMOnTime PWM_PULSE_MIN (s\<lparr>rawHVADCThreshold := threshold\<rparr>)"
  have on0: "pwmOn ?s0 = PWM_PULSE_MIN"
    using assms(2) by (simp add: setPWMOnTime_pwmOn pwm_consts)
  have top0: "pwmTop ?s0 = pwmTop s" and thr0: "rawHVADCThreshold ?s0 = threshold"
    by (simp_all add: setPWMOnTime_frame)
  have "pwmOn (pass2Loop reading 768 ?s0) =
      min (pwmOn ?s0 + int ((768 + 7) div 8)) (min PWM_PULSE_MAX (pwmTop ?s0 - PWM_OFF_MIN))"
    unfolding on0 top0
    by (rule pass2Loop_pwmOn [of 768 reading ?s0, unfolded on0 top0 thr0])
       (use assms in \<open>simp_all add: pwm_consts\<close>)
  then have main: "pwmOn (calibratePass2 threshold reading s) =
      min (PWM_PULSE_MIN + 96) (min PWM_PULSE_MAX (pwmTop s - PWM_OFF_MIN))"
    by (simp add: calibratePass2_def on0 top0)
  have gen: "pwmOn (pass2Loop reading 768 t) =
      min (pwmOn t + 96) (min PWM_PULSE_MAX (pwmTop t - PWM_OFF_MIN))"
    if "rawHVADCThreshold t = threshold" "PWM_PULSE_MIN \<le> pwmOn t"
      "pwmOn t \<le> min PWM_PULSE_MAX (pwmTop t - PWM_OFF_MIN)" for t
  proof -
    have "pwmOn (pass2Loop reading 768 t) =
      min (pwmOn t + int ((768 + 7) div 8)) (min PWM_PULSE_MAX (pwmTop t - PWM_OFF_MIN))"
      using assms(1) that by (intro pass2Loop_pwmOn) simp_all
    then show ?thesis by simp
  qed
  from main assms(2) have "pwmOn (calibratePass2 threshold reading s) = PWM_PULSE_MIN + 96"
    by (simp add: pwm_consts)
  with main gen show ?thesis by (metis (no_types, lifting))
qed

theorem calibratePass2_increments_witness:
  "PWM_TOP_MIN \<le> pwmTop hvDefault
   \<and> pwmOn (calibratePass2 100 (\<lambda>i::nat. 0::int) hvDefault) = 146
   \<and> rawHVADCThreshold (hvDefault\<lparr>rawHVADCThreshold := 100, pwmOn := 450\<rparr>) = 100
   \<and> PWM_PULSE_MIN \<le> pwmOn (hvDefault\<lparr>rawHVADCThreshold := 100, pwmOn := 450\<rparr>)
   \<and> pwmOn (pass2Loop (\<lambda>i::nat. 0::int) 768 (hvDefault\<lparr>rawHVADCThreshold := 100, pwmOn := 450\<rparr>))
       = 500"
proof -
  have h1: "\<forall>i<768. (\<lambda>i::nat. 0::int) i < (100::int)" by simp
  have h2: "PWM_TOP_MIN \<le> pwmTop hvDefault" by (simp add: hvDefault_def pwm_consts)
  note c = calibratePass2_increments [OF h1 h2]
  from c have a: "pwmOn (calibratePass2 100 (\<lambda>i::nat. 0::int) hvDefault) = 146"
    by (simp add: pwm_consts)
  from c have "pwmOn (pass2Loop (\<lambda>i::nat. 0::int) 768 (hvDefault\<lparr>rawHVADCThreshold := 100, pwmOn := 450\<rparr>))
      = min (450 + 96) (min PWM_PULSE_MAX (PWM_TOP_DEFAULT - PWM_OFF_MIN))"
    by (simp add: hvDefault_def pwm_consts)
  then have b: "pwmOn (pass2Loop (\<lambda>i::nat. 0::int) 768 (hvDefault\<lparr>rawHVADCThreshold := 100, pwmOn := 450\<rparr>))
      = 500"
    by (simp add: pwm_consts)
  from h2 a b show ?thesis by (simp add: hvDefault_def pwm_consts)
qed


section \<open>The display loop, digit by digit\<close>

lemma byte_of_int_nat: "n < 256 \<Longrightarrow> byte_of_int (int n) = n"
  by (simp add: byte_of_int_def)

lemma byte_of_int_id: "0 \<le> x \<Longrightarrow> x < 256 \<Longrightarrow> byte_of_int x = nat x"
  by (simp add: byte_of_int_def)

lemma byte_of_int_pred: "0 < n \<Longrightarrow> n \<le> 256 \<Longrightarrow> byte_of_int (int n - 1) = n - 1"
  by (simp add: byte_of_int_def nat_diff_distrib')

lemma displayDigits_length: "length (displayDigits g ds loc) = length ds"
  by (induction ds arbitrary: loc) (simp_all add: Let_def)

lemma displayDigits_nth:
  "i < length ds \<Longrightarrow>
     displayDigits g ds loc ! i =
       displayDigit g (ds ! i)
         (if i = 0 then loc else snd (displayDigits g ds loc ! (i - 1)))"
proof (induction ds arbitrary: i loc)
  case Nil
  then show ?case by simp
next
  case (Cons d ds)
  show ?case
  proof (cases i)
    case 0
    then show ?thesis by (simp add: Let_def)
  next
    case (Suc j)
    with Cons.prems have j: "j < length ds" by simp
    show ?thesis
      using Cons.IH [OF j, of "snd (displayDigit g d loc)"] Suc
      by (cases j) (simp_all add: Let_def)
  qed
qed

lemma fst_displayDigit: "fst (displayDigit g d loc) = nextDigit g d"
  by (simp add: nextDigit_def displayDigit_def fadeDigit_def Let_def split_def)

lemma nextDigit_cong:
  assumes "blanked g = blanked g'" "scrollback g = scrollback g'"
    "scrollSteps g = scrollSteps g'" "fadeSteps g = fadeSteps g'"
  shows "nextDigit g d = nextDigit g' d"
  using assms
  by (simp add: nextDigit_def displayDigit_def fadeDigit_def scrollDigit_def effectiveType_def
      configuredType_def Let_def split_def)

lemma map_fst_displayDigits: "map fst (displayDigits g ds loc) = map (nextDigit g) ds"
  by (induction ds arbitrary: loc) (simp_all add: Let_def fst_displayDigit)

lemma outputDisplay_digits: "digits (fst (outputDisplay st)) = map (nextDigit st) (digits st)"
  by (simp add: outputDisplay_def Let_def map_fst_displayDigits)

lemma outputDisplay_config:
  "fadeSteps (fst (outputDisplay st)) = fadeSteps st"
  "fadeStep (fst (outputDisplay st)) = fadeStep st"
  "digitOffCount (fst (outputDisplay st)) = digitOffCount st"
  "scrollSteps (fst (outputDisplay st)) = scrollSteps st"
  "scrollback (fst (outputDisplay st)) = scrollback st"
  "blanked (fst (outputDisplay st)) = blanked st"
  by (simp_all add: outputDisplay_def Let_def)

lemma outputDisplay_blink:
  "blinkCounter (fst (outputDisplay st)) =
     (if blinkCounter st + 1 = BLINK_COUNT_MAX then 0 else blinkCounter st + 1)"
  "blinkState (fst (outputDisplay st)) =
     (if blinkCounter st + 1 = BLINK_COUNT_MAX then \<not> blinkState st else blinkState st)"
  by (simp_all add: outputDisplay_def Let_def)

lemma outputDisplay_timing:
  "snd (outputDisplay st) = map snd (displayDigits st (digits st) unassigned)"
  by (simp add: outputDisplay_def Let_def)

lemma impressions_0: "impressions 0 st = st"
  by (simp add: impressions_def)

lemma impressions_Suc: "impressions (Suc n) st = fst (outputDisplay (impressions n st))"
  by (simp add: impressions_def)

lemma impressions_config:
  "fadeSteps (impressions n st) = fadeSteps st
   \<and> fadeStep (impressions n st) = fadeStep st
   \<and> digitOffCount (impressions n st) = digitOffCount st
   \<and> scrollSteps (impressions n st) = scrollSteps st
   \<and> scrollback (impressions n st) = scrollback st
   \<and> blanked (impressions n st) = blanked st"
  by (induction n) (simp_all add: impressions_0 impressions_Suc outputDisplay_config)

lemma nextDigit_impressions: "nextDigit (impressions n st) d = nextDigit st d"
  by (rule nextDigit_cong) (simp_all add: impressions_config)

lemma impressions_digits:
  "digits (impressions n st) = map (nextDigit st ^^ n) (digits st)"
proof (induction n)
  case 0
  show ?case by (simp add: impressions_0)
next
  case (Suc n)
  show ?case
    by (simp add: impressions_Suc outputDisplay_digits Suc nextDigit_impressions)
qed

lemma impressions_digit:
  "i < length (digits st) \<Longrightarrow> digits (impressions n st) ! i = (nextDigit st ^^ n) (digits st ! i)"
  by (simp add: impressions_digits)


section \<open>Fading a digit\<close>

lemma nextDigit_impressions_fun: "nextDigit (impressions n st) = nextDigit st"
  by (rule ext) (rule nextDigit_impressions)

lemma timingAt_displayDigit:
  assumes "i < length (digits st)"
  shows "\<exists>loc. timingAt (Suc k) i st =
           snd (displayDigit (impressions k st)
                  ((nextDigit (impressions k st) ^^ k) (digits st ! i)) loc)"
proof -
  let ?g = "impressions k st"
  have len: "i < length (digits ?g)"
    using assms by (simp add: impressions_digits)
  have "timingAt (Suc k) i st = snd (displayDigits ?g (digits ?g) unassigned ! i)"
    using len by (simp add: timingAt_def outputDisplay_timing displayDigits_length)
  also have "\<dots> = snd (displayDigit ?g (digits ?g ! i)
      (if i = 0 then unassigned else snd (displayDigits ?g (digits ?g) unassigned ! (i - 1))))"
    using displayDigits_nth [OF len] by simp
  finally show ?thesis
    using assms by (auto simp add: impressions_digit nextDigit_impressions_fun)
qed

lemma effectiveType_fadeState [simp]:
  "effectiveType g (d\<lparr>fadeState := f\<rparr>) = effectiveType g d"
  "configuredType g (d\<lparr>fadeState := f\<rparr>) = configuredType g d"
  by (simp_all add: effectiveType_def configuredType_def)

lemma displayDigit_fade:
  "effectiveType g d = FADE \<Longrightarrow>
     displayDigit g d loc = fadeDigit g d (onOffTimes g (configuredType g d) loc)"
  by (simp add: displayDigit_def Let_def display_types)

lemma fadeDigit_start:
  assumes "NumberArray d \<noteq> currNumberArray d" "fadeState d = 0"
    "fadeSteps g = int n" "2 \<le> n" "n \<le> 255"
  shows "fadeDigit g d loc =
           (d\<lparr>fadeState := n - 1\<rparr>,
            loc\<lparr>digitSwitchTime := Some (int (n - 1) * fadeStep g)\<rparr>)"
  using assms by (simp add: fadeDigit_def Let_def byte_of_int_nat byte_of_int_pred)

lemma fadeDigit_start_one:
  assumes "NumberArray d \<noteq> currNumberArray d" "fadeState d = 0" "fadeSteps g = 1"
  shows "fadeDigit g d loc =
           (d\<lparr>fadeState := 0, currNumberArray := NumberArray d\<rparr>,
            loc\<lparr>digitSwitchTime := Some DIGIT_DISPLAY_COUNT\<rparr>)"
  using assms by (simp add: fadeDigit_def Let_def byte_of_int_def)

lemma fadeDigit_continue:
  assumes "1 < fadeState d" "fadeState d \<le> 255"
  shows "fadeDigit g d loc =
           (d\<lparr>fadeState := fadeState d - 1\<rparr>,
            loc\<lparr>digitSwitchTime := Some (int (fadeState d - 1) * fadeStep g)\<rparr>)"
  using assms by (simp add: fadeDigit_def Let_def byte_of_int_pred)

lemma fadeDigit_finish:
  assumes "fadeState d = 1"
  shows "fadeDigit g d loc =
           (d\<lparr>fadeState := 0, currNumberArray := NumberArray d\<rparr>,
            loc\<lparr>digitSwitchTime := Some DIGIT_DISPLAY_COUNT\<rparr>)"
  using assms by (simp add: fadeDigit_def Let_def)

lemma fadeDigit_idle:
  assumes "NumberArray d = currNumberArray d" "fadeState d = 0"
  shows "fadeDigit g d loc = (d, loc)"
  using assms by (simp add: fadeDigit_def Let_def)

lemma fading_effectiveType:
  assumes "\<not> blanked g" "displayType d = FADE"
    "NumberArray d \<noteq> 0 \<or> \<not> scrollback g"
  shows "effectiveType g d = FADE" "configuredType g d = FADE"
  using assms by (auto simp add: effectiveType_def configuredType_def)

lemma fade_run:
  assumes fade: "effectiveType g d = FADE"
    and ne: "NumberArray d \<noteq> currNumberArray d" and f0: "fadeState d = 0"
    and n: "fadeSteps g = int n" "n \<le> 255"
    and k: "1 \<le> k" "k \<le> n"
  shows "(nextDigit g ^^ k) d =
           (if k < n then d\<lparr>fadeState := n - k\<rparr>
            else d\<lparr>fadeState := 0, currNumberArray := NumberArray d\<rparr>)"
  using k
proof (induction k rule: nat_induct_at_least)
  case base
  show ?case
  proof (cases "n = 1")
    case True
    then show ?thesis
      using fade ne f0 n
      by (simp add: fst_displayDigit [symmetric, of g d unassigned] displayDigit_fade
          fadeDigit_start_one)
  next
    case False
    with base have "2 \<le> n" by simp
    then show ?thesis
      using fade ne f0 n
      by (simp add: fst_displayDigit [symmetric, of g d unassigned] displayDigit_fade
          fadeDigit_start)
  qed
next
  case (Suc k)
  then have kn: "k < n" by simp
  let ?d = "d\<lparr>fadeState := n - k\<rparr>"
  have ih: "(nextDigit g ^^ k) d = ?d"
    using Suc kn by simp
  have fd: "effectiveType g ?d = FADE" using fade by simp
  have step: "nextDigit g ?d = fst (fadeDigit g ?d (onOffTimes g (configuredType g ?d) unassigned))"
    using displayDigit_fade [OF fd, of unassigned]
    by (simp add: fst_displayDigit [symmetric, of g ?d unassigned])
  show ?case
  proof (cases "Suc k < n")
    case True
    then have "1 < fadeState ?d" "fadeState ?d \<le> 255" using n by simp_all
    from fadeDigit_continue [OF this] True show ?thesis
      by (simp add: ih step)
  next
    case False
    with Suc.prems have "fadeState ?d = 1" by simp
    from fadeDigit_finish [OF this] False show ?thesis
      by (simp add: ih step)
  qed
qed

lemma fade_switch:
  assumes fade: "effectiveType g d = FADE"
    and ne: "NumberArray d \<noteq> currNumberArray d" and f0: "fadeState d = 0"
    and n: "fadeSteps g = int n" "n \<le> 255"
    and k: "k < n"
  shows "digitSwitchTime (snd (displayDigit g ((nextDigit g ^^ k) d) loc)) =
           Some (if Suc k < n then int (n - Suc k) * fadeStep g else DIGIT_DISPLAY_COUNT)"
proof (cases k)
  case 0
  show ?thesis
  proof (cases "n = 1")
    case True
    then show ?thesis
      using 0 fade ne f0 n by (simp add: displayDigit_fade fadeDigit_start_one)
  next
    case False
    with k 0 have "2 \<le> n" by simp
    then show ?thesis
      using 0 fade ne f0 n by (simp add: displayDigit_fade fadeDigit_start)
  qed
next
  case (Suc j)
  let ?d = "d\<lparr>fadeState := n - k\<rparr>"
  have run: "(nextDigit g ^^ k) d = ?d"
    using fade_run [OF fade ne f0 n, of k] k Suc by simp
  have fd: "effectiveType g ?d = FADE" using fade by simp
  show ?thesis
  proof (cases "Suc k < n")
    case True
    then have "1 < fadeState ?d" "fadeState ?d \<le> 255" using n by simp_all
    from fadeDigit_continue [OF this] True show ?thesis
      by (simp add: run displayDigit_fade [OF fd])
  next
    case False
    with k have "fadeState ?d = 1" by simp
    from fadeDigit_finish [OF this] False show ?thesis
      by (simp add: run displayDigit_fade [OF fd])
  qed
qed


section \<open>Scrolling a digit back to zero\<close>

lemma displayDigit_scroll:
  "effectiveType g d = SCROLL \<Longrightarrow>
     displayDigit g d loc =
       (scrollDigit g d,
        (onOffTimes g (configuredType g d) loc)\<lparr>digitSwitchTime := Some DIGIT_DISPLAY_OFF\<rparr>)"
  by (simp add: displayDigit_def Let_def)

lemma scrolling_effectiveType:
  assumes "NumberArray d = 0" "currNumberArray d \<noteq> 0" "scrollback g"
  shows "effectiveType g d = SCROLL"
  using assms by (simp add: effectiveType_def)

lemma byte_of_int_one: "byte_of_int 1 = 1"
  by (simp add: byte_of_int_def)

lemma scrollDigit_step:
  assumes ne: "NumberArray d \<noteq> currNumberArray d"
    and m: "scrollSteps g = int m" "1 \<le> m" "m \<le> 255"
    and f: "fadeState d < m" and c: "0 < currNumberArray d" "currNumberArray d \<le> 255"
  shows "scrollDigit g d =
           (if fadeState d = 1 \<or> (fadeState d = 0 \<and> m = 1)
            then d\<lparr>fadeState := 0, currNumberArray := currNumberArray d - 1\<rparr>
            else if fadeState d = 0 then d\<lparr>fadeState := m - 1\<rparr>
            else d\<lparr>fadeState := fadeState d - 1\<rparr>)"
  using assms
  by (auto simp add: scrollDigit_def Let_def byte_of_int_nat byte_of_int_pred byte_of_int_one)

lemma scroll_run:
  assumes n0: "NumberArray d = 0" and sb: "scrollback g"
    and m: "scrollSteps g = int m" "1 \<le> m" "m \<le> 255"
    and f0: "fadeState d = 0" and c: "currNumberArray d \<le> 255"
    and k: "k \<le> currNumberArray d * m"
  shows "(nextDigit g ^^ k) d =
           d\<lparr>fadeState := (m - k mod m) mod m,
             currNumberArray := currNumberArray d - k div m\<rparr>"
  using k
proof (induction k)
  case 0
  show ?case using f0 by simp
next
  case (Suc k)
  let ?r = "k mod m"
  let ?d = "d\<lparr>fadeState := (m - ?r) mod m, currNumberArray := currNumberArray d - k div m\<rparr>"
  have ih: "(nextDigit g ^^ k) d = ?d" using Suc by simp
  have mpos: "0 < m" using m by simp
  have "k < currNumberArray d * m" using Suc.prems by simp
  then have q: "k div m < currNumberArray d"
    using mpos by (simp add: div_less_iff_less_mult)
  then have cpos: "0 < currNumberArray ?d" "currNumberArray ?d \<le> 255"
    using c by simp_all
  have ne: "NumberArray ?d \<noteq> currNumberArray ?d" using n0 cpos by simp
  have eff: "effectiveType g ?d = SCROLL"
    using n0 cpos sb by (simp add: effectiveType_def)
  have fm: "fadeState ?d < m" using mpos by simp
  have next_eq: "nextDigit g ?d = scrollDigit g ?d"
    using displayDigit_scroll [OF eff, of unassigned]
    by (simp add: fst_displayDigit [symmetric, of g ?d unassigned])
  note step = scrollDigit_step [OF ne m fm cpos]
  have rm: "?r < m" using mpos by simp
  show ?case
  proof (cases "Suc ?r = m")
    case True
    then have a: "Suc k mod m = 0" "Suc k div m = Suc (k div m)"
      by (simp_all add: mod_Suc div_Suc)
    have b: "fadeState ?d = 1 \<or> (fadeState ?d = 0 \<and> m = 1)"
      using True by (cases "m = 1") auto
    have "nextDigit g ?d =
        ?d\<lparr>fadeState := 0, currNumberArray := currNumberArray ?d - 1\<rparr>"
      unfolding next_eq step using b by simp
    then show ?thesis
      by (simp add: ih a)
  next
    case False
    with rm have lt: "Suc ?r < m" by simp
    then have a: "Suc k mod m = Suc ?r" "Suc k div m = k div m"
      using False by (simp_all add: mod_Suc div_Suc)
    show ?thesis
    proof (cases "?r = 0")
      case True
      then have b: "fadeState ?d = 0" "m \<noteq> 1" using lt by simp_all
      have "nextDigit g ?d = ?d\<lparr>fadeState := m - 1\<rparr>"
        unfolding next_eq step using b by simp
      then show ?thesis
        using True lt by (simp add: ih a)
    next
      case False
      then have b: "fadeState ?d = m - ?r" "1 < m - ?r" using lt by simp_all
      have "nextDigit g ?d = ?d\<lparr>fadeState := fadeState ?d - 1\<rparr>"
        unfolding next_eq step using b by simp
      then show ?thesis
        using False lt by (simp add: ih a b)
    qed
  qed
qed


section \<open>Successive impressions of a fading digit\<close>

lemma effectiveType_impressions:
  "effectiveType (impressions n st) d = effectiveType st d"
  by (simp add: effectiveType_def configuredType_def impressions_config)

lemma impressions_fade:
  assumes i: "i < length (digits st)"
    and fade: "effectiveType st (digits st ! i) = FADE"
    and ne: "NumberArray (digits st ! i) \<noteq> currNumberArray (digits st ! i)"
    and f0: "fadeState (digits st ! i) = 0"
    and n: "fadeSteps st = int n" "n \<le> 255"
    and k: "1 \<le> k" "k \<le> n"
  shows "digits (impressions k st) ! i =
           (if k < n then (digits st ! i)\<lparr>fadeState := n - k\<rparr>
            else (digits st ! i)\<lparr>fadeState := 0,
                   currNumberArray := NumberArray (digits st ! i)\<rparr>)"
  unfolding impressions_digit [OF i]
  by (rule fade_run [OF fade ne f0 n k])

lemma timingAt_fade:
  assumes i: "i < length (digits st)"
    and fade: "effectiveType st (digits st ! i) = FADE"
    and ne: "NumberArray (digits st ! i) \<noteq> currNumberArray (digits st ! i)"
    and f0: "fadeState (digits st ! i) = 0"
    and n: "fadeSteps st = int n" "n \<le> 255"
    and k: "1 \<le> k" "k \<le> n"
  shows "digitSwitchTime (timingAt k i st) =
           Some (if k < n then int (n - k) * fadeStep st else DIGIT_DISPLAY_COUNT)"
proof -
  obtain j where j: "k = Suc j" using k by (cases k) simp_all
  let ?g = "impressions j st"
  obtain loc where t: "timingAt (Suc j) i st =
      snd (displayDigit ?g ((nextDigit ?g ^^ j) (digits st ! i)) loc)"
    using timingAt_displayDigit [OF i, of j] by blast
  have fade': "effectiveType ?g (digits st ! i) = FADE"
    using fade by (simp add: effectiveType_impressions)
  have n': "fadeSteps ?g = int n" using n by (simp add: impressions_config)
  have "j < n" using k j by simp
  from fade_switch [OF fade' ne f0 n' n(2) this, of loc] show ?thesis
    unfolding j t by (simp add: impressions_config)
qed

text \<open>
  C1 (as amended). A digit in Fade mode with a change pending, no scrollback and
  \<open>fadeState = 0\<close>, with \<open>fadeSteps = n\<close> (a byte, at least 1): after impression
  \<open>k < n\<close> the stored \<open>fadeState\<close> is \<open>n - k\<close>, the current value is still the
  old one, and the timer loop of that impression ran with
  \<open>digitSwitchTime = (n - k) * fadeStep\<close>; after impression \<open>n\<close>, and not before,
  the current value is the target, \<open>fadeState\<close> is 0, and that impression ran with
  \<open>digitSwitchTime = DIGIT_DISPLAY_COUNT\<close>. With \<open>fadeSteps = 50\<close> and
  \<open>fadeStep = 20\<close> the switch steps are 980, 960, ..., 20 and then 1000.
\<close>

theorem fade_transition:
  assumes "i < length (digits st)"
    and "\<not> blanked st" and "displayType (digits st ! i) = FADE"
    and "NumberArray (digits st ! i) \<noteq> currNumberArray (digits st ! i)"
    and "NumberArray (digits st ! i) \<noteq> 0 \<or> \<not> scrollback st"
    and "fadeState (digits st ! i) = 0"
    and "fadeSteps st = int n" and "1 \<le> n" and "n \<le> 255"
  shows "(\<forall>k. 1 \<le> k \<and> k < n \<longrightarrow>
           fadeState (digits (impressions k st) ! i) = n - k
         \<and> currNumberArray (digits (impressions k st) ! i) = currNumberArray (digits st ! i)
         \<and> digitSwitchTime (timingAt k i st) = Some (int (n - k) * fadeStep st))
       \<and> fadeState (digits (impressions n st) ! i) = 0
       \<and> currNumberArray (digits (impressions n st) ! i) = NumberArray (digits st ! i)
       \<and> digitSwitchTime (timingAt n i st) = Some DIGIT_DISPLAY_COUNT
       \<and> (0 < fadeStep st \<longrightarrow>
            (\<forall>k k'. 1 \<le> k \<and> k < k' \<and> k' < n \<longrightarrow>
               (\<exists>a b. digitSwitchTime (timingAt k i st) = Some a
                    \<and> digitSwitchTime (timingAt k' i st) = Some b \<and> b < a)))"
proof -
  have fade: "effectiveType st (digits st ! i) = FADE"
    using assms(2,3,5) by (rule fading_effectiveType)
  note run = impressions_fade [OF assms(1) fade assms(4,6,7,9)]
  note sw = timingAt_fade [OF assms(1) fade assms(4,6,7,9)]
  have "fadeState (digits (impressions k st) ! i) = n - k
      \<and> currNumberArray (digits (impressions k st) ! i) = currNumberArray (digits st ! i)
      \<and> digitSwitchTime (timingAt k i st) = Some (int (n - k) * fadeStep st)"
    if "1 \<le> k" "k < n" for k
    using run [of k] sw [of k] that by simp
  moreover have "fadeState (digits (impressions n st) ! i) = 0
      \<and> currNumberArray (digits (impressions n st) ! i) = NumberArray (digits st ! i)
      \<and> digitSwitchTime (timingAt n i st) = Some DIGIT_DISPLAY_COUNT"
    using run [of n] sw [of n] assms(8) by simp
  moreover have "\<exists>a b. digitSwitchTime (timingAt k i st) = Some a
      \<and> digitSwitchTime (timingAt k' i st) = Some b \<and> b < a"
    if "0 < fadeStep st" "1 \<le> k" "k < k'" "k' < n" for k k'
    using sw [of k] sw [of k'] that by (simp add: mult_strict_right_mono)
  ultimately show ?thesis by blast
qed

lemma fadeDemo_facts:
  "length (digits fadeDemo) = 6" "digits fadeDemo ! 0 = mkDigit 7 3 FADE 0"
  "\<not> blanked fadeDemo" "fadeSteps fadeDemo = int 50" "fadeStep fadeDemo = 20"
  "scrollback fadeDemo"
  by (simp_all add: fadeDemo_def mkDisplay_def loopFadeStep_def)

theorem fade_transition_witness:
  "fadeState (digits (impressions 1 fadeDemo) ! 0) = 49
   \<and> digitSwitchTime (timingAt 1 0 fadeDemo) = Some 980
   \<and> fadeState (digits (impressions 49 fadeDemo) ! 0) = 1
   \<and> currNumberArray (digits (impressions 49 fadeDemo) ! 0) = 3
   \<and> digitSwitchTime (timingAt 49 0 fadeDemo) = Some 20
   \<and> fadeState (digits (impressions 50 fadeDemo) ! 0) = 0
   \<and> currNumberArray (digits (impressions 50 fadeDemo) ! 0) = 7
   \<and> digitSwitchTime (timingAt 50 0 fadeDemo) = Some 1000"
proof -
  have "(\<forall>k. 1 \<le> k \<and> k < 50 \<longrightarrow>
           fadeState (digits (impressions k fadeDemo) ! 0) = 50 - k
         \<and> currNumberArray (digits (impressions k fadeDemo) ! 0) = currNumberArray (digits fadeDemo ! 0)
         \<and> digitSwitchTime (timingAt k 0 fadeDemo) = Some (int (50 - k) * fadeStep fadeDemo))
       \<and> fadeState (digits (impressions 50 fadeDemo) ! 0) = 0
       \<and> currNumberArray (digits (impressions 50 fadeDemo) ! 0) = NumberArray (digits fadeDemo ! 0)
       \<and> digitSwitchTime (timingAt 50 0 fadeDemo) = Some DIGIT_DISPLAY_COUNT
       \<and> (0 < fadeStep fadeDemo \<longrightarrow>
            (\<forall>k k'. 1 \<le> k \<and> k < k' \<and> k' < 50 \<longrightarrow>
               (\<exists>a b. digitSwitchTime (timingAt k 0 fadeDemo) = Some a
                    \<and> digitSwitchTime (timingAt k' 0 fadeDemo) = Some b \<and> b < a)))"
    by (rule fade_transition) (simp_all add: fadeDemo_facts mkDigit_def)
  then show ?thesis
    by (simp add: fadeDemo_facts mkDigit_def DIGIT_DISPLAY_COUNT_def)
qed

text \<open>
  The scenario of C1 (\<open>fadeSteps = 50\<close>, off count 1000, \<open>fadeStep = 20\<close>,
  current 3, target 7): the first impression switches at step 980, not 1000, and the
  fiftieth at step 1000, not 20, after the forty-ninth switched at step 20; the switch
  step is not decreasing over the fifty impressions.
\<close>

theorem fade_switch_sequence_counterexample:
  "digitSwitchTime (timingAt 1 0 fadeDemo) = Some 980
   \<and> digitSwitchTime (timingAt 1 0 fadeDemo) \<noteq> Some 1000
   \<and> digitSwitchTime (timingAt 49 0 fadeDemo) = Some 20
   \<and> digitSwitchTime (timingAt 50 0 fadeDemo) = Some 1000
   \<and> digitSwitchTime (timingAt 50 0 fadeDemo) \<noteq> Some 20"
proof -
  have fade: "effectiveType fadeDemo (digits fadeDemo ! 0) = FADE"
    by (rule fading_effectiveType) (simp_all add: fadeDemo_facts mkDigit_def)
  have sw: "digitSwitchTime (timingAt k 0 fadeDemo) =
      Some (if k < 50 then int (50 - k) * fadeStep fadeDemo else DIGIT_DISPLAY_COUNT)"
    if "1 \<le> k" "k \<le> 50" for k
    by (rule timingAt_fade [OF _ fade]) (use that in \<open>simp_all add: fadeDemo_facts mkDigit_def\<close>)
  from sw [of 1] sw [of 49] sw [of 50] show ?thesis
    by (simp add: fadeDemo_facts DIGIT_DISPLAY_COUNT_def)
qed


section \<open>Digits that snap, digits that scroll\<close>

lemma nextDigit_snap:
  assumes "effectiveType g d \<noteq> FADE" "effectiveType g d \<noteq> SCROLL"
  shows "nextDigit g d = d\<lparr>currNumberArray := NumberArray d\<rparr>"
  using assms by (simp add: nextDigit_def displayDigit_def Let_def)

lemma outputDisplay_digit:
  "i < length (digits st) \<Longrightarrow>
     digits (fst (outputDisplay st)) ! i = nextDigit st (digits st ! i)"
  by (simp add: outputDisplay_digits)

lemma normalDemo_facts:
  "length (digits normalDemo) = 6" "digits normalDemo ! 0 = mkDigit 7 3 NORMAL 0"
  "\<not> blanked normalDemo" "scrollback normalDemo" "blinkCounter normalDemo = 0"
  "blinkState normalDemo" "digitOffCount normalDemo = 999"
  by (simp_all add: normalDemo_def mkDisplay_def loopFadeStep_def)

lemma blankedDemo_facts:
  "length (digits blankedDemo) = 6" "digits blankedDemo ! 0 = mkDigit 7 3 FADE 0"
  "blanked blankedDemo" "scrollback blankedDemo" "digitOffCount blankedDemo = 999"
  "fadeSteps blankedDemo = 50" "blinkState blankedDemo"
  by (simp_all add: blankedDemo_def mkDisplay_def loopFadeStep_def)

lemma scrollDemo_facts:
  "length (digits scrollDemo) = 6" "digits scrollDemo ! 0 = mkDigit 0 3 NORMAL 0"
  "\<not> blanked scrollDemo" "scrollback scrollDemo" "scrollSteps scrollDemo = int 4"
  by (simp_all add: scrollDemo_def mkDisplay_def loopFadeStep_def)

text \<open>
  C5. The display mode of a digit in a call is the value of \<^verbatim>\<open>tmpDispType\<close> the
  branches test: \<^verbatim>\<open>BLANKED\<close> under the global flag, else the digit's
  \<^verbatim>\<open>displayType\<close>, replaced by \<^verbatim>\<open>SCROLL\<close> when the scrollback test holds. For
  every digit whose display mode is neither \<^verbatim>\<open>FADE\<close> nor \<^verbatim>\<open>SCROLL\<close>, after one
  call of \<^verbatim>\<open>outputDisplay\<close> the current value equals the target; the target and
  \<open>fadeState\<close> are not touched.
\<close>

theorem snap_in_one_impression:
  assumes "i < length (digits st)"
    and "effectiveType st (digits st ! i) \<noteq> FADE"
    and "effectiveType st (digits st ! i) \<noteq> SCROLL"
  shows "currNumberArray (digits (fst (outputDisplay st)) ! i)
           = NumberArray (digits (fst (outputDisplay st)) ! i)
       \<and> NumberArray (digits (fst (outputDisplay st)) ! i) = NumberArray (digits st ! i)
       \<and> fadeState (digits (fst (outputDisplay st)) ! i) = fadeState (digits st ! i)"
  using nextDigit_snap [OF assms(2,3)]
  by (simp add: outputDisplay_digit [OF assms(1)])

text \<open>
  A \<^verbatim>\<open>NORMAL\<close> digit showing 3 with target 7, and a digit configured \<^verbatim>\<open>FADE\<close>
  showing 3 with target 7 under the \<^verbatim>\<open>blanked\<close> flag, whose mode in the call is
  \<^verbatim>\<open>BLANKED\<close>: both show 7 after one call.
\<close>

theorem snap_in_one_impression_witness:
  "effectiveType normalDemo (digits normalDemo ! 0) = NORMAL
   \<and> currNumberArray (digits (fst (outputDisplay normalDemo)) ! 0) = 7
   \<and> NumberArray (digits (fst (outputDisplay normalDemo)) ! 0) = 7
   \<and> displayType (digits blankedDemo ! 0) = FADE
   \<and> effectiveType blankedDemo (digits blankedDemo ! 0) = BLANKED
   \<and> currNumberArray (digits (fst (outputDisplay blankedDemo)) ! 0) = 7"
  using snap_in_one_impression [of 0 normalDemo] snap_in_one_impression [of 0 blankedDemo]
  by (simp add: normalDemo_facts blankedDemo_facts mkDigit_def effectiveType_def
      configuredType_def display_types)

lemma nextDigit_settled:
  assumes "NumberArray d = currNumberArray d" "fadeState d = 0"
  shows "nextDigit g d = d"
  using assms
  by (simp add: nextDigit_def displayDigit_def Let_def scrollDigit_def fadeDigit_def)

lemma settled_run:
  assumes "NumberArray d = currNumberArray d" "fadeState d = 0"
  shows "(nextDigit g ^^ k) d = d"
  by (induction k) (simp_all add: nextDigit_settled [OF assms])

lemma scroll_step:
  assumes n0: "NumberArray d = 0" and sb: "scrollback g"
    and c: "0 < currNumberArray d" "currNumberArray d \<le> 255"
    and f: "fadeState d \<le> 255"
    and m: "scrollSteps g = int m" "1 \<le> m" "m \<le> 255"
  shows "nextDigit g d =
           (if (if fadeState d = 0 then m else fadeState d) = 1
            then d\<lparr>fadeState := 0, currNumberArray := currNumberArray d - 1\<rparr>
            else d\<lparr>fadeState := (if fadeState d = 0 then m else fadeState d) - 1\<rparr>)"
proof -
  have eff: "effectiveType g d = SCROLL"
    using n0 c sb by (simp add: effectiveType_def)
  have "nextDigit g d = scrollDigit g d"
    using displayDigit_scroll [OF eff, of unassigned]
    by (simp add: fst_displayDigit [symmetric, of g d unassigned])
  then show ?thesis
    using n0 c f m
    by (auto simp add: scrollDigit_def Let_def byte_of_int_nat byte_of_int_pred byte_of_int_one)
qed

lemma scroll_first_drop:
  assumes n0: "NumberArray d = 0" and sb: "scrollback g"
    and c: "0 < currNumberArray d" "currNumberArray d \<le> 255"
    and f: "fadeState d \<le> 255"
    and m: "scrollSteps g = int m" "1 \<le> m" "m \<le> 255"
    and p: "p = (if fadeState d = 0 then m else fadeState d)"
    and k: "1 \<le> k" "k \<le> p"
  shows "(nextDigit g ^^ k) d =
           (if k < p then d\<lparr>fadeState := p - k\<rparr>
            else d\<lparr>fadeState := 0, currNumberArray := currNumberArray d - 1\<rparr>)"
  using k
proof (induction k rule: nat_induct_at_least)
  case base
  show ?case
    using scroll_step [OF n0 sb c f m] base p by (auto split: if_splits)
next
  case (Suc k)
  then have kp: "k < p" by simp
  let ?d = "d\<lparr>fadeState := p - k\<rparr>"
  have ih: "(nextDigit g ^^ k) d = ?d" using Suc kp by simp
  have pf: "p \<le> 255" using p f m by (simp split: if_splits)
  have "nextDigit g ?d =
      (if (if fadeState ?d = 0 then m else fadeState ?d) = 1
       then ?d\<lparr>fadeState := 0, currNumberArray := currNumberArray ?d - 1\<rparr>
       else ?d\<lparr>fadeState := (if fadeState ?d = 0 then m else fadeState ?d) - 1\<rparr>)"
    by (rule scroll_step [OF _ sb _ _ _ m]) (use n0 c pf in simp_all)
  then show ?case
    using kp Suc.prems by (auto simp add: ih)
qed

lemma scroll_general_run:
  assumes n0: "NumberArray d = 0" and sb: "scrollback g"
    and c: "0 < currNumberArray d" "currNumberArray d \<le> 255"
    and f: "fadeState d \<le> 255"
    and m: "scrollSteps g = int m" "1 \<le> m" "m \<le> 255"
    and p: "p = (if fadeState d = 0 then m else fadeState d)"
    and j: "j \<le> (currNumberArray d - 1) * m"
  shows "(nextDigit g ^^ (p + j)) d =
           d\<lparr>fadeState := (m - j mod m) mod m,
             currNumberArray := currNumberArray d - 1 - j div m\<rparr>"
proof -
  let ?e = "d\<lparr>fadeState := 0, currNumberArray := currNumberArray d - 1\<rparr>"
  have pp: "1 \<le> p" using p m by (simp split: if_splits)
  have e: "(nextDigit g ^^ p) d = ?e"
    using scroll_first_drop [OF n0 sb c f m p, of p] pp by simp
  have "(nextDigit g ^^ (p + j)) d = (nextDigit g ^^ j) ((nextDigit g ^^ p) d)"
    by (simp add: funpow_add add.commute)
  also have "\<dots> = (nextDigit g ^^ j) ?e" by (simp only: e)
  also have "\<dots> = ?e\<lparr>fadeState := (m - j mod m) mod m,
      currNumberArray := currNumberArray ?e - j div m\<rparr>"
    by (rule scroll_run [OF _ sb m]) (use n0 c j in simp_all)
  finally show ?thesis by simp
qed

lemma scroll_course:
  assumes n0: "NumberArray d = 0" and sb: "scrollback g"
    and c: "0 < currNumberArray d" "currNumberArray d \<le> 255"
    and f: "fadeState d \<le> 255"
    and m: "scrollSteps g = int m" "1 \<le> m" "m \<le> 255"
    and p: "p = (if fadeState d = 0 then m else fadeState d)"
  shows "1 \<le> k \<Longrightarrow> k < p \<Longrightarrow> (nextDigit g ^^ k) d = d\<lparr>fadeState := p - k\<rparr>"
    and "j \<le> (currNumberArray d - 1) * m \<Longrightarrow>
           (nextDigit g ^^ (p + j)) d =
             d\<lparr>fadeState := (m - j mod m) mod m,
               currNumberArray := currNumberArray d - 1 - j div m\<rparr>"
    and "k < p + (currNumberArray d - 1) * m \<Longrightarrow>
           fadeState ((nextDigit g ^^ Suc k) d) =
             (if fadeState ((nextDigit g ^^ k) d) = 0 then m
              else fadeState ((nextDigit g ^^ k) d)) - 1
         \<and> currNumberArray ((nextDigit g ^^ Suc k) d) =
             (if fadeState ((nextDigit g ^^ Suc k) d) = 0
              then currNumberArray ((nextDigit g ^^ k) d) - 1
              else currNumberArray ((nextDigit g ^^ k) d))"
    and "p + (currNumberArray d - 1) * m \<le> k \<Longrightarrow>
           (nextDigit g ^^ k) d = d\<lparr>fadeState := 0, currNumberArray := 0\<rparr>"
proof -
  note first = scroll_first_drop [OF n0 sb c f m p]
  note run = scroll_general_run [OF n0 sb c f m p]
  have pf: "p \<le> 255" "1 \<le> p" using p f m by (simp_all split: if_splits)
  show a: "(nextDigit g ^^ k) d = d\<lparr>fadeState := p - k\<rparr>" if "1 \<le> k" "k < p" for k
    using first [of k] that by simp
  show b: "(nextDigit g ^^ (p + j)) d =
      d\<lparr>fadeState := (m - j mod m) mod m, currNumberArray := currNumberArray d - 1 - j div m\<rparr>"
    if "j \<le> (currNumberArray d - 1) * m" for j
    by (rule run [OF that])
  show "fadeState ((nextDigit g ^^ Suc k) d) =
             (if fadeState ((nextDigit g ^^ k) d) = 0 then m
              else fadeState ((nextDigit g ^^ k) d)) - 1
         \<and> currNumberArray ((nextDigit g ^^ Suc k) d) =
             (if fadeState ((nextDigit g ^^ Suc k) d) = 0
              then currNumberArray ((nextDigit g ^^ k) d) - 1
              else currNumberArray ((nextDigit g ^^ k) d))"
    if k: "k < p + (currNumberArray d - 1) * m"
  proof -
    let ?D = "(nextDigit g ^^ k) d"
    have inv: "NumberArray ?D = 0 \<and> 0 < currNumberArray ?D \<and> currNumberArray ?D \<le> 255
        \<and> fadeState ?D \<le> 255"
    proof (cases "k < p")
      case True
      show ?thesis
      proof (cases "k = 0")
        case True
        then show ?thesis using n0 c f by simp
      next
        case False
        with True a [of k] show ?thesis using n0 c pf by simp
      qed
    next
      case False
      then obtain j where j: "k = p + j" by (metis le_add_diff_inverse not_less)
      with k have jl: "j < (currNumberArray d - 1) * m" by simp
      then have "j div m < currNumberArray d - 1"
        using m(2) by (simp add: div_less_iff_less_mult)
      then have q: "Suc (j div m) < currNumberArray d"
        "currNumberArray d - Suc (j div m) \<le> 255"
        using c by linarith+
      have r: "(m - j mod m) mod m < m" using m(2) by simp
      show ?thesis
        using b [of j] jl n0 q r m(3) unfolding j by simp
    qed
    have F: "1 \<le> (if fadeState ?D = 0 then m else fadeState ?D)"
      using m(2) by simp
    have "nextDigit g ?D =
        (if (if fadeState ?D = 0 then m else fadeState ?D) = 1
         then ?D\<lparr>fadeState := 0, currNumberArray := currNumberArray ?D - 1\<rparr>
         else ?D\<lparr>fadeState := (if fadeState ?D = 0 then m else fadeState ?D) - 1\<rparr>)"
      by (rule scroll_step [OF _ sb _ _ _ m]) (use inv in simp_all)
    then show ?thesis
      using F by (auto split: if_splits)
  qed
  show "(nextDigit g ^^ k) d = d\<lparr>fadeState := 0, currNumberArray := 0\<rparr>"
    if k: "p + (currNumberArray d - 1) * m \<le> k"
  proof -
    let ?T = "p + (currNumberArray d - 1) * m"
    let ?e = "d\<lparr>fadeState := 0, currNumberArray := 0\<rparr>"
    have e: "(nextDigit g ^^ ?T) d = ?e"
      using b [of "(currNumberArray d - 1) * m"] m(2) by simp
    obtain j where j: "k = j + ?T" using k by (metis le_add_diff_inverse2)
    have "(nextDigit g ^^ k) d = (nextDigit g ^^ j) ((nextDigit g ^^ ?T) d)"
      unfolding j by (simp add: funpow_add)
    also have "\<dots> = ?e"
      unfolding e using n0 by (intro settled_run) simp_all
    finally show ?thesis .
  qed
qed

lemma leftoverDemo_facts:
  "length (digits leftoverDemo) = 6" "digits leftoverDemo ! 0 = mkDigit 0 5 FADE 2"
  "\<not> blanked leftoverDemo" "scrollback leftoverDemo" "scrollSteps leftoverDemo = int 4"
  by (simp_all add: leftoverDemo_def mkDisplay_def loopFadeStep_def)

text \<open>
  C6 (as amended). For a digit whose \<^verbatim>\<open>displayType\<close> is not \<^verbatim>\<open>SCROLL\<close> (no
  preset stores that value), the \<^verbatim>\<open>SCROLL\<close> branch runs exactly when the target is
  0, \<^verbatim>\<open>scrollback\<close> is set and the current value differs from the target. While it
  runs, with \<open>scrollSteps = m\<close>, each call takes one off \<open>fadeState\<close>, after
  reloading it with \<open>m\<close> when it was 0, and the current value drops by one in the call
  that brings \<open>fadeState\<close> to 0. The first drop comes with call number \<open>p\<close>, which is
  \<open>m\<close> when the scroll starts with \<open>fadeState = 0\<close> and the count left in
  \<open>fadeState\<close> otherwise; from then on the current value drops by one at every
  \<open>m\<close>-th call, until it is 0, where it stays.
\<close>

theorem scroll_to_zero:
  assumes i: "i < length (digits st)"
    and ty: "displayType (digits st ! i) \<noteq> SCROLL"
  shows "(effectiveType st (digits st ! i) = SCROLL \<longleftrightarrow>
            NumberArray (digits st ! i) = 0 \<and> scrollback st
            \<and> currNumberArray (digits st ! i) \<noteq> NumberArray (digits st ! i))
       \<and> (NumberArray (digits st ! i) = 0 \<and> scrollback st
            \<and> 0 < currNumberArray (digits st ! i) \<and> currNumberArray (digits st ! i) \<le> 255
            \<and> fadeState (digits st ! i) \<le> 255
            \<and> scrollSteps st = int m \<and> 1 \<le> m \<and> m \<le> 255
            \<and> p = (if fadeState (digits st ! i) = 0 then m else fadeState (digits st ! i)) \<longrightarrow>
          (\<forall>k. 1 \<le> k \<and> k < p \<longrightarrow>
              currNumberArray (digits (impressions k st) ! i) = currNumberArray (digits st ! i)
            \<and> fadeState (digits (impressions k st) ! i) = p - k)
          \<and> (\<forall>j \<le> (currNumberArray (digits st ! i) - 1) * m.
              currNumberArray (digits (impressions (p + j) st) ! i)
                = currNumberArray (digits st ! i) - 1 - j div m
            \<and> fadeState (digits (impressions (p + j) st) ! i) = (m - j mod m) mod m)
          \<and> (\<forall>k < p + (currNumberArray (digits st ! i) - 1) * m.
              fadeState (digits (impressions (Suc k) st) ! i)
                = (if fadeState (digits (impressions k st) ! i) = 0 then m
                   else fadeState (digits (impressions k st) ! i)) - 1
            \<and> currNumberArray (digits (impressions (Suc k) st) ! i)
                = (if fadeState (digits (impressions (Suc k) st) ! i) = 0
                   then currNumberArray (digits (impressions k st) ! i) - 1
                   else currNumberArray (digits (impressions k st) ! i)))
          \<and> (\<forall>k \<ge> p + (currNumberArray (digits st ! i) - 1) * m.
              currNumberArray (digits (impressions k st) ! i) = 0
            \<and> fadeState (digits (impressions k st) ! i) = 0))"
proof -
  let ?d = "digits st ! i"
  have a: "effectiveType st ?d = SCROLL \<longleftrightarrow>
      NumberArray ?d = 0 \<and> scrollback st \<and> currNumberArray ?d \<noteq> NumberArray ?d"
    using ty by (auto simp add: effectiveType_def configuredType_def display_types)
  have b: "(\<forall>k. 1 \<le> k \<and> k < p \<longrightarrow>
              currNumberArray (digits (impressions k st) ! i) = currNumberArray ?d
            \<and> fadeState (digits (impressions k st) ! i) = p - k)
          \<and> (\<forall>j \<le> (currNumberArray ?d - 1) * m.
              currNumberArray (digits (impressions (p + j) st) ! i)
                = currNumberArray ?d - 1 - j div m
            \<and> fadeState (digits (impressions (p + j) st) ! i) = (m - j mod m) mod m)
          \<and> (\<forall>k < p + (currNumberArray ?d - 1) * m.
              fadeState (digits (impressions (Suc k) st) ! i)
                = (if fadeState (digits (impressions k st) ! i) = 0 then m
                   else fadeState (digits (impressions k st) ! i)) - 1
            \<and> currNumberArray (digits (impressions (Suc k) st) ! i)
                = (if fadeState (digits (impressions (Suc k) st) ! i) = 0
                   then currNumberArray (digits (impressions k st) ! i) - 1
                   else currNumberArray (digits (impressions k st) ! i)))
          \<and> (\<forall>k \<ge> p + (currNumberArray ?d - 1) * m.
              currNumberArray (digits (impressions k st) ! i) = 0
            \<and> fadeState (digits (impressions k st) ! i) = 0)"
    if h: "NumberArray ?d = 0" "scrollback st" "0 < currNumberArray ?d"
      "currNumberArray ?d \<le> 255" "fadeState ?d \<le> 255"
      "scrollSteps st = int m" "1 \<le> m" "m \<le> 255"
      "p = (if fadeState ?d = 0 then m else fadeState ?d)"
  proof -
    note course = scroll_course [OF h]
    show ?thesis
      unfolding impressions_digit [OF i]
      using course(1) course(2) course(3) course(4) by simp
  qed
  from a b show ?thesis by blast
qed

theorem scroll_to_zero_witness:
  "effectiveType scrollDemo (digits scrollDemo ! 0) = SCROLL
   \<and> currNumberArray (digits (impressions 3 scrollDemo) ! 0) = 3
   \<and> fadeState (digits (impressions 3 scrollDemo) ! 0) = 1
   \<and> currNumberArray (digits (impressions 4 scrollDemo) ! 0) = 2
   \<and> fadeState (digits (impressions 4 scrollDemo) ! 0) = 0
   \<and> currNumberArray (digits (impressions 8 scrollDemo) ! 0) = 1
   \<and> currNumberArray (digits (impressions 11 scrollDemo) ! 0) = 1
   \<and> currNumberArray (digits (impressions 12 scrollDemo) ! 0) = 0
   \<and> currNumberArray (digits (impressions 20 scrollDemo) ! 0) = 0
   \<and> currNumberArray (digits (impressions 2 leftoverDemo) ! 0) = 4
   \<and> fadeState (digits (impressions 2 leftoverDemo) ! 0) = 0"
proof -
  have p: "0 < length (digits scrollDemo)" "displayType (digits scrollDemo ! 0) \<noteq> SCROLL"
    by (simp_all add: scrollDemo_facts mkDigit_def display_types)
  note u = scroll_to_zero [OF p, of 4 4]
  from u have a: "effectiveType scrollDemo (digits scrollDemo ! 0) = SCROLL"
    by (simp add: scrollDemo_facts mkDigit_def)
  from u have b: "\<forall>k. 1 \<le> k \<and> k < 4 \<longrightarrow>
      currNumberArray (digits (impressions k scrollDemo) ! 0) = 3
    \<and> fadeState (digits (impressions k scrollDemo) ! 0) = 4 - k"
    by (simp add: scrollDemo_facts mkDigit_def)
  from u have c: "\<forall>j \<le> 8.
      currNumberArray (digits (impressions (4 + j) scrollDemo) ! 0) = 2 - j div 4
    \<and> fadeState (digits (impressions (4 + j) scrollDemo) ! 0) = (4 - j mod 4) mod 4"
    by (simp add: scrollDemo_facts mkDigit_def)
  from u have d: "\<forall>k \<ge> 12.
      currNumberArray (digits (impressions k scrollDemo) ! 0) = 0"
    by (simp add: scrollDemo_facts mkDigit_def)
  have q: "0 < length (digits leftoverDemo)" "displayType (digits leftoverDemo ! 0) \<noteq> SCROLL"
    by (simp_all add: leftoverDemo_facts mkDigit_def display_types)
  note v = scroll_to_zero [OF q, of 4 2]
  have H: "NumberArray (digits leftoverDemo ! 0) = 0 \<and> scrollback leftoverDemo
      \<and> 0 < currNumberArray (digits leftoverDemo ! 0)
      \<and> currNumberArray (digits leftoverDemo ! 0) \<le> 255
      \<and> fadeState (digits leftoverDemo ! 0) \<le> 255
      \<and> scrollSteps leftoverDemo = int 4 \<and> 1 \<le> (4::nat) \<and> (4::nat) \<le> 255
      \<and> 2 = (if fadeState (digits leftoverDemo ! 0) = 0 then 4
               else fadeState (digits leftoverDemo ! 0))"
    by (simp add: leftoverDemo_facts mkDigit_def)
  note w = v [THEN conjunct2, THEN mp, OF H]
  from w [THEN conjunct2, THEN conjunct1, rule_format, of 0]
  have e: "currNumberArray (digits (impressions 2 leftoverDemo) ! 0) = 4
      \<and> fadeState (digits (impressions 2 leftoverDemo) ! 0) = 0"
    by (simp add: leftoverDemo_facts mkDigit_def)
  from a b [rule_format, of 3] c [rule_format, of 0] c [rule_format, of 4]
    c [rule_format, of 7] c [rule_format, of 8] d [rule_format, of 20] e
  show ?thesis by simp
qed

text \<open>
  A digit showing 5 with target 0 and scrollback set, \<open>scrollSteps = 4\<close>, entering the
  scroll with \<open>fadeState = 2\<close> left from a fade: the current value is 4 after two
  calls, not after four, and 3 after six.
\<close>

theorem scroll_leftover_counterexample:
  "effectiveType leftoverDemo (digits leftoverDemo ! 0) = SCROLL
   \<and> scrollSteps leftoverDemo = 4
   \<and> fadeState (digits leftoverDemo ! 0) = 2
   \<and> currNumberArray (digits leftoverDemo ! 0) = 5
   \<and> currNumberArray (digits (impressions 1 leftoverDemo) ! 0) = 5
   \<and> currNumberArray (digits (impressions 2 leftoverDemo) ! 0) = 4
   \<and> currNumberArray (digits (impressions 4 leftoverDemo) ! 0) = 4
   \<and> currNumberArray (digits (impressions 6 leftoverDemo) ! 0) = 3"
proof -
  let ?d = "digits leftoverDemo ! 0"
  have h: "NumberArray ?d = 0" "scrollback leftoverDemo" "0 < currNumberArray ?d"
    "currNumberArray ?d \<le> 255" "fadeState ?d \<le> 255"
    "scrollSteps leftoverDemo = int 4" "1 \<le> (4::nat)" "(4::nat) \<le> 255"
    "2 = (if fadeState ?d = 0 then 4 else fadeState ?d)"
    by (simp_all add: leftoverDemo_facts mkDigit_def)
  note course = scroll_course [OF h]
  have i: "0 < length (digits leftoverDemo)" by (simp add: leftoverDemo_facts)
  have a: "effectiveType leftoverDemo ?d = SCROLL"
    by (simp add: effectiveType_def leftoverDemo_facts mkDigit_def)
  from course(1) [of 1] course(2) [of 0] course(2) [of 2] course(2) [of 4] a
  show ?thesis
    by (simp add: impressions_digit [OF i] leftoverDemo_facts mkDigit_def)
qed


section \<open>The blink counter and the locals of an idle digit\<close>

lemma blink_run:
  assumes "blinkCounter st = 0" "int k < BLINK_COUNT_MAX"
  shows "blinkCounter (impressions k st) = int k \<and> blinkState (impressions k st) = blinkState st"
  using assms(2)
proof (induction k)
  case 0
  show ?case using assms(1) by (simp add: impressions_0)
next
  case (Suc k)
  then have "blinkCounter (impressions k st) = int k"
    "blinkState (impressions k st) = blinkState st" by simp_all
  then show ?case
    using Suc.prems by (simp add: impressions_Suc outputDisplay_blink)
qed

lemma blink_toggle:
  assumes "blinkCounter st = 0"
  shows "blinkCounter (impressions (nat BLINK_COUNT_MAX) st) = 0
       \<and> blinkState (impressions (nat BLINK_COUNT_MAX) st) = (\<not> blinkState st)"
proof -
  have s: "impressions (nat BLINK_COUNT_MAX) st = fst (outputDisplay (impressions 24 st))"
    using impressions_Suc [of 24 st] by (simp add: BLINK_COUNT_MAX_def)
  have "blinkCounter (impressions 24 st) = int 24
      \<and> blinkState (impressions 24 st) = blinkState st"
    by (rule blink_run [OF assms]) (simp add: BLINK_COUNT_MAX_def)
  then show ?thesis
    unfolding s by (simp add: outputDisplay_blink BLINK_COUNT_MAX_def)
qed

text \<open>
  C9 (as amended). \<^verbatim>\<open>blinkCounter\<close> is incremented once per call of
  \<^verbatim>\<open>outputDisplay\<close>, after the loop over the six digits. From
  \<open>blinkCounter = 0\<close>, \<open>blinkState\<close> keeps its value through the first 24 calls and
  is inverted by call number \<open>BLINK_COUNT_MAX = 25\<close>, which also resets the counter.
\<close>

theorem blink_every_25_calls:
  assumes "blinkCounter st = 0"
  shows "(\<forall>k. int k < BLINK_COUNT_MAX \<longrightarrow>
            blinkState (impressions k st) = blinkState st
          \<and> blinkCounter (impressions k st) = int k)
       \<and> blinkState (impressions (nat BLINK_COUNT_MAX) st) = (\<not> blinkState st)
       \<and> blinkCounter (impressions (nat BLINK_COUNT_MAX) st) = 0
       \<and> blinkCounter (fst (outputDisplay st)) = 1"
  using blink_run [OF assms] blink_toggle [OF assms] assms
  by (simp add: outputDisplay_blink BLINK_COUNT_MAX_def)

theorem blink_every_25_calls_witness:
  "blinkState (impressions 24 normalDemo) \<and> \<not> blinkState (impressions 25 normalDemo)
   \<and> blinkCounter (impressions 24 normalDemo) = 24
   \<and> blinkCounter (impressions 25 normalDemo) = 0"
  using blink_every_25_calls [of normalDemo]
  by (simp add: normalDemo_facts BLINK_COUNT_MAX_def)

text \<open>
  Six digits, \<open>blinkCounter = 0\<close>: after five calls, which render thirty digits,
  \<open>blinkState\<close> has not been inverted and the counter stands at 5.
\<close>

theorem blink_after_five_calls_counterexample:
  "length (digits normalDemo) = 6
   \<and> blinkCounter normalDemo = 0
   \<and> blinkCounter (impressions 5 normalDemo) = 5
   \<and> blinkState (impressions 5 normalDemo) = blinkState normalDemo"
  using blink_run [of normalDemo 5]
  by (simp add: normalDemo_facts BLINK_COUNT_MAX_def)

lemma timingAt_first:
  "i < length (digits st) \<Longrightarrow>
     snd (outputDisplay st) ! i =
       snd (displayDigit st (digits st ! i)
              (if i = 0 then unassigned else snd (outputDisplay st) ! (i - 1)))"
  using displayDigits_nth [of i "digits st" st unassigned]
  by (simp add: outputDisplay_timing displayDigits_length)

text \<open>
  C10. A digit in Fade mode (not blanked) whose current value equals the target and
  whose \<open>fadeState\<close> is 0: its iteration assigns nothing to
  \<^verbatim>\<open>digitSwitchTime\<close> and changes nothing in the arrays, so its timer loop reads the
  value the iteration of the digit before left there, and for digit 0 a local that has
  never been assigned. Every digit whose type after the scrollback test is neither
  \<^verbatim>\<open>FADE\<close> nor \<^verbatim>\<open>SCROLL\<close> runs with \<open>DIGIT_DISPLAY_COUNT\<close> instead.
\<close>

theorem idle_fade_keeps_switch_time:
  assumes "i < length (digits st)"
    and "\<not> blanked st" and "displayType (digits st ! i) = FADE"
    and "NumberArray (digits st ! i) = currNumberArray (digits st ! i)"
    and "fadeState (digits st ! i) = 0"
  shows "digitSwitchTime (snd (outputDisplay st) ! i) =
           (if i = 0 then None else digitSwitchTime (snd (outputDisplay st) ! (i - 1)))
       \<and> digits (fst (outputDisplay st)) ! i = digits st ! i
       \<and> (\<forall>j < length (digits st).
             effectiveType st (digits st ! j) \<noteq> FADE
           \<and> effectiveType st (digits st ! j) \<noteq> SCROLL \<longrightarrow>
             digitSwitchTime (snd (outputDisplay st) ! j) = Some DIGIT_DISPLAY_COUNT)"
proof -
  let ?d = "digits st ! i"
  have fade: "effectiveType st ?d = FADE"
    using assms(2-4) by (simp add: effectiveType_def configuredType_def)
  have "digitSwitchTime (snd (displayDigit st ?d loc)) = digitSwitchTime loc" for loc
    using assms(4,5)
    by (simp add: displayDigit_fade [OF fade] fadeDigit_idle onOffTimes_def)
  then have a: "digitSwitchTime (snd (outputDisplay st) ! i) =
      (if i = 0 then None else digitSwitchTime (snd (outputDisplay st) ! (i - 1)))"
    unfolding timingAt_first [OF assms(1)] by (simp add: unassigned_def)
  have b: "digits (fst (outputDisplay st)) ! i = ?d"
    using assms(1,4,5) by (simp add: outputDisplay_digit nextDigit_settled)
  have c: "digitSwitchTime (snd (outputDisplay st) ! j) = Some DIGIT_DISPLAY_COUNT"
    if "j < length (digits st)" "effectiveType st (digits st ! j) \<noteq> FADE"
      "effectiveType st (digits st ! j) \<noteq> SCROLL" for j
    unfolding timingAt_first [OF that(1)] using that(2,3)
    by (simp add: displayDigit_def Let_def)
  from a b c show ?thesis by blast
qed

lemma idleDemo_facts:
  "\<not> blanked idleDemo"
  "digits idleDemo = [mkDigit 7 7 FADE 0, mkDigit 7 7 NORMAL 0, mkDigit 7 7 FADE 0,
                      mkDigit 7 7 FADE 0, mkDigit 7 7 FADE 0, mkDigit 7 7 FADE 0]"
  by (simp_all add: idleDemo_def mkDisplay_def loopFadeStep_def)

theorem idle_fade_keeps_switch_time_witness:
  "digitSwitchTime (snd (outputDisplay idleDemo) ! 0) = None
   \<and> digitSwitchTime (snd (outputDisplay idleDemo) ! 1) = Some 1000
   \<and> digitSwitchTime (snd (outputDisplay idleDemo) ! 2) = Some 1000"
proof -
  have a: "digitSwitchTime (snd (outputDisplay idleDemo) ! 0) = None"
    using idle_fade_keeps_switch_time [of 0 idleDemo]
    by (simp add: idleDemo_facts mkDigit_def)
  have "\<forall>j < length (digits idleDemo).
             effectiveType idleDemo (digits idleDemo ! j) \<noteq> FADE
           \<and> effectiveType idleDemo (digits idleDemo ! j) \<noteq> SCROLL \<longrightarrow>
             digitSwitchTime (snd (outputDisplay idleDemo) ! j) = Some DIGIT_DISPLAY_COUNT"
    using idle_fade_keeps_switch_time [of 0 idleDemo]
    by (simp add: idleDemo_facts mkDigit_def)
  from this [rule_format, of 1]
  have b: "digitSwitchTime (snd (outputDisplay idleDemo) ! 1) = Some 1000"
    by (simp add: idleDemo_facts mkDigit_def effectiveType_def configuredType_def
        display_types DIGIT_DISPLAY_COUNT_def)
  have c: "digitSwitchTime (snd (outputDisplay idleDemo) ! 2)
      = digitSwitchTime (snd (outputDisplay idleDemo) ! 1)"
    using idle_fade_keeps_switch_time [of 2 idleDemo]
    by (simp add: idleDemo_facts mkDigit_def)
  from a b c show ?thesis by simp
qed


section \<open>The order of the on, switch and off steps\<close>

lemma fade_switch_bound:
  fixes a n x :: int
  assumes "0 \<le> a" "1 \<le> n" "0 \<le> x" "x \<le> n"
  shows "x * (a div n) \<le> a" "0 \<le> x * (a div n)"
proof -
  have d: "0 \<le> a div n" using assms(1,2) by (simp add: pos_imp_zdiv_nonneg_iff)
  have "x * (a div n) \<le> n * (a div n)"
    using assms(4) d by (rule mult_right_mono)
  also have "\<dots> \<le> a"
  proof -
    have "n * (a div n) + a mod n = a" by simp
    moreover have "0 \<le> a mod n" using assms(2) by simp
    ultimately show ?thesis by linarith
  qed
  finally show "x * (a div n) \<le> a" .
  show "0 \<le> x * (a div n)" using assms(3) d by simp
qed

lemma onOffTimes_valid:
  assumes "t \<le> BRIGHT" "0 \<le> digitOffCount g" "digitOffCount g \<le> DIGIT_DISPLAY_OFF"
  shows "\<exists>on off. digitOnTime (onOffTimes g t loc) = Some on
           \<and> digitOffTime (onOffTimes g t loc) = Some off
           \<and> on = (if t = BLANKED \<or> (t = BLINK \<and> \<not> blinkState g)
                   then DIGIT_DISPLAY_NEVER else DIGIT_DISPLAY_ON)
           \<and> off = (if t = BLANKED \<or> (t = BLINK \<and> \<not> blinkState g) then DIGIT_DISPLAY_ON
                    else if t = DIMMED then DIM_VALUE
                    else if t = BRIGHT then DIGIT_DISPLAY_OFF
                    else digitOffCount g)
           \<and> 0 \<le> off \<and> off \<le> DIGIT_DISPLAY_OFF"
proof -
  from assms(1) have "t = BLANKED \<or> t = DIMMED \<or> t = FADE \<or> t = NORMAL \<or> t = BLINK
      \<or> t = SCROLL \<or> t = BRIGHT"
    by (auto simp add: display_types)
  then show ?thesis
    using assms(2,3) by (auto simp add: onOffTimes_def display_types display_consts)
qed

lemma onOffTimes_switch [simp]:
  "digitSwitchTime (onOffTimes g t loc) = digitSwitchTime loc"
  by (simp add: onOffTimes_def)

lemma onOffTimes_fade:
  "digitOnTime (onOffTimes g FADE loc) = Some DIGIT_DISPLAY_ON"
  "digitOffTime (onOffTimes g FADE loc) = Some (digitOffCount g)"
  by (simp_all add: onOffTimes_def display_types)

lemma fadeDigit_order:
  assumes off: "0 \<le> digitOffCount g" "digitOffCount g \<le> DIGIT_DISPLAY_OFF"
    and byte: "fadeState d \<le> 255"
    and busy: "\<not> (NumberArray d = currNumberArray d \<and> fadeState d = 0)"
    and steps: "1 \<le> fadeSteps g" "fadeSteps g \<le> 255"
  shows "\<exists>sw. digitSwitchTime (snd (fadeDigit g d loc)) = Some sw
         \<and> (if fadeState (fst (fadeDigit g d loc)) \<noteq> 0
            then sw = int (fadeState (fst (fadeDigit g d loc))) * fadeStep g
                 \<and> (fadeStep g = digitOffCount g div fadeSteps g
                      \<and> int (fadeState d) \<le> fadeSteps g \<longrightarrow>
                    0 \<le> sw \<and> sw \<le> digitOffCount g \<and> (0 < sw \<longleftrightarrow> 1 \<le> fadeStep g))
            else sw = DIGIT_DISPLAY_COUNT)"
proof -
  obtain n where n: "fadeSteps g = int n" "1 \<le> n" "n \<le> 255"
    using steps by (metis nat_le_iff nat_0_le nat_one_as_int of_nat_le_iff order_trans zero_le_one
        of_nat_numeral)
  consider (finish) "fadeState d = 1 \<or> (fadeState d = 0 \<and> n = 1)"
    | (start) "fadeState d = 0" "2 \<le> n"
    | (continue) "1 < fadeState d"
    using n(2) by linarith
  then show ?thesis
  proof cases
    case finish
    then have "fadeDigit g d loc =
        (d\<lparr>fadeState := 0, currNumberArray := NumberArray d\<rparr>,
         loc\<lparr>digitSwitchTime := Some DIGIT_DISPLAY_COUNT\<rparr>)"
      using busy n fadeDigit_finish [of d g loc] fadeDigit_start_one [of d g loc]
      by auto
    then show ?thesis by simp
  next
    case start
    then have ne: "NumberArray d \<noteq> currNumberArray d" using busy by simp
    have fd: "fadeDigit g d loc =
        (d\<lparr>fadeState := n - 1\<rparr>,
         loc\<lparr>digitSwitchTime := Some (int (n - 1) * fadeStep g)\<rparr>)"
      by (rule fadeDigit_start [OF ne start(1) n(1) start(2) n(3)])
    have b: "int (n - 1) * fadeStep g \<le> digitOffCount g" "0 \<le> int (n - 1) * fadeStep g"
      if "fadeStep g = digitOffCount g div fadeSteps g"
      unfolding that
      using fade_switch_bound [of "digitOffCount g" "fadeSteps g" "int (n - 1)"]
        off steps n by simp_all
    have p: "0 < int (n - 1) * fadeStep g \<longleftrightarrow> 1 \<le> fadeStep g"
      using start(2) by (auto simp add: zero_less_mult_iff)
    show ?thesis
      using start(2) b p by (auto simp add: fd)
  next
    case continue
    have fd: "fadeDigit g d loc =
        (d\<lparr>fadeState := fadeState d - 1\<rparr>,
         loc\<lparr>digitSwitchTime := Some (int (fadeState d - 1) * fadeStep g)\<rparr>)"
      by (rule fadeDigit_continue [OF continue byte])
    have b: "int (fadeState d - 1) * fadeStep g \<le> digitOffCount g"
      "0 \<le> int (fadeState d - 1) * fadeStep g"
      if "fadeStep g = digitOffCount g div fadeSteps g" "int (fadeState d) \<le> fadeSteps g"
      unfolding that(1)
      using fade_switch_bound [of "digitOffCount g" "fadeSteps g" "int (fadeState d - 1)"]
        off steps that(2) by simp_all
    have p: "0 < int (fadeState d - 1) * fadeStep g \<longleftrightarrow> 1 \<le> fadeStep g"
      using continue by (auto simp add: zero_less_mult_iff)
    show ?thesis
      using continue b p by (auto simp add: fd)
  qed
qed

lemma displayDigit_order:
  assumes valid: "configuredType g d \<le> BRIGHT"
    and off: "0 \<le> digitOffCount g" "digitOffCount g \<le> DIGIT_DISPLAY_OFF"
    and byte: "fadeState d \<le> 255"
    and busy: "\<not> (effectiveType g d = FADE \<and> NumberArray d = currNumberArray d
                  \<and> fadeState d = 0)"
  shows "\<exists>on off sw.
           digitOnTime (snd (displayDigit g d loc)) = Some on
         \<and> digitOffTime (snd (displayDigit g d loc)) = Some off
         \<and> digitSwitchTime (snd (displayDigit g d loc)) = Some sw
         \<and> on = (if configuredType g d = BLANKED
                     \<or> (configuredType g d = BLINK \<and> \<not> blinkState g)
                  then DIGIT_DISPLAY_NEVER else DIGIT_DISPLAY_ON)
         \<and> off = (if configuredType g d = BLANKED
                      \<or> (configuredType g d = BLINK \<and> \<not> blinkState g)
                   then DIGIT_DISPLAY_ON
                   else if configuredType g d = DIMMED then DIM_VALUE
                   else if configuredType g d = BRIGHT then DIGIT_DISPLAY_OFF
                   else digitOffCount g)
         \<and> 0 \<le> off \<and> off \<le> DIGIT_DISPLAY_OFF
         \<and> (if effectiveType g d = SCROLL
             then sw = DIGIT_DISPLAY_OFF \<and> on < sw \<and> off \<le> sw
             else if effectiveType g d \<noteq> FADE
             then sw = DIGIT_DISPLAY_COUNT \<and> on < sw \<and> off < sw
             else on = DIGIT_DISPLAY_ON \<and> off = digitOffCount g
                \<and> (1 \<le> fadeSteps g \<and> fadeSteps g \<le> 255 \<longrightarrow>
                     (if fadeState (fst (displayDigit g d loc)) \<noteq> 0
                      then sw = int (fadeState (fst (displayDigit g d loc))) * fadeStep g
                         \<and> (fadeStep g = digitOffCount g div fadeSteps g
                              \<and> int (fadeState d) \<le> fadeSteps g \<longrightarrow>
                            on \<le> sw \<and> sw \<le> off \<and> (on < sw \<longleftrightarrow> 1 \<le> fadeStep g))
                      else sw = DIGIT_DISPLAY_COUNT \<and> on < sw \<and> off < sw)))"
proof -
  let ?loc = "onOffTimes g (configuredType g d) loc"
  obtain on off where oo:
    "digitOnTime ?loc = Some on" "digitOffTime ?loc = Some off"
    "on = (if configuredType g d = BLANKED \<or> (configuredType g d = BLINK \<and> \<not> blinkState g)
           then DIGIT_DISPLAY_NEVER else DIGIT_DISPLAY_ON)"
    "off = (if configuredType g d = BLANKED \<or> (configuredType g d = BLINK \<and> \<not> blinkState g)
            then DIGIT_DISPLAY_ON
            else if configuredType g d = DIMMED then DIM_VALUE
            else if configuredType g d = BRIGHT then DIGIT_DISPLAY_OFF
            else digitOffCount g)"
    "0 \<le> off" "off \<le> DIGIT_DISPLAY_OFF"
    using onOffTimes_valid [OF valid off, of loc] by blast
  have onr: "on = DIGIT_DISPLAY_ON \<or> on = DIGIT_DISPLAY_NEVER"
    using oo(3) by simp
  consider (scroll) "effectiveType g d = SCROLL"
    | (fade) "effectiveType g d = FADE"
    | (snap) "effectiveType g d \<noteq> SCROLL" "effectiveType g d \<noteq> FADE"
    by blast
  then show ?thesis
  proof cases
    case scroll
    have "digitSwitchTime (snd (displayDigit g d loc)) = Some DIGIT_DISPLAY_OFF"
      "digitOnTime (snd (displayDigit g d loc)) = Some on"
      "digitOffTime (snd (displayDigit g d loc)) = Some off"
      using oo(1,2) by (simp_all add: displayDigit_scroll [OF scroll])
    moreover have "on < DIGIT_DISPLAY_OFF" using onr by (auto simp add: display_consts)
    ultimately show ?thesis
      using oo(3-6) scroll by (intro exI [of _ on] exI [of _ off] exI [of _ DIGIT_DISPLAY_OFF]) simp
  next
    case snap
    have "digitSwitchTime (snd (displayDigit g d loc)) = Some DIGIT_DISPLAY_COUNT"
      "digitOnTime (snd (displayDigit g d loc)) = Some on"
      "digitOffTime (snd (displayDigit g d loc)) = Some off"
      using oo(1,2) snap by (simp_all add: displayDigit_def Let_def)
    moreover have "on < DIGIT_DISPLAY_COUNT" "off < DIGIT_DISPLAY_COUNT"
      using onr oo(6) by (auto simp add: display_consts)
    ultimately show ?thesis
      using oo(3-6) snap
      by (intro exI [of _ on] exI [of _ off] exI [of _ DIGIT_DISPLAY_COUNT]) simp
  next
    case fade
    then have cfg: "configuredType g d = FADE"
      by (auto simp add: effectiveType_def display_types split: if_splits)
    have on: "on = DIGIT_DISPLAY_ON" and offc: "off = digitOffCount g"
      using oo(3,4) unfolding cfg by (simp_all add: display_types)
    have dd: "displayDigit g d loc = fadeDigit g d ?loc"
      by (rule displayDigit_fade [OF fade])
    have busy': "\<not> (NumberArray d = currNumberArray d \<and> fadeState d = 0)"
      using busy fade by simp
    have t: "digitOnTime (snd (fadeDigit g d ?loc)) = Some on"
      "digitOffTime (snd (fadeDigit g d ?loc)) = Some off"
      using oo(1,2) by (simp_all add: fadeDigit_def Let_def split_def)
    have some: "\<exists>sw. digitSwitchTime (snd (fadeDigit g d ?loc)) = Some sw"
      using busy' by (auto simp add: fadeDigit_def Let_def split_def)
    then obtain sw where sw: "digitSwitchTime (snd (fadeDigit g d ?loc)) = Some sw" ..
    have ne: "FADE \<noteq> SCROLL" by (simp add: display_types)
    have main: "1 \<le> fadeSteps g \<and> fadeSteps g \<le> 255 \<longrightarrow>
       (if fadeState (fst (fadeDigit g d ?loc)) \<noteq> 0
        then sw = int (fadeState (fst (fadeDigit g d ?loc))) * fadeStep g
           \<and> (fadeStep g = digitOffCount g div fadeSteps g
                \<and> int (fadeState d) \<le> fadeSteps g \<longrightarrow>
              on \<le> sw \<and> sw \<le> off \<and> (on < sw \<longleftrightarrow> 1 \<le> fadeStep g))
        else sw = DIGIT_DISPLAY_COUNT \<and> on < sw \<and> off < sw)"
    proof
      assume st: "1 \<le> fadeSteps g \<and> fadeSteps g \<le> 255"
      then have st': "1 \<le> fadeSteps g" "fadeSteps g \<le> 255" by simp_all
      show "if fadeState (fst (fadeDigit g d ?loc)) \<noteq> 0
        then sw = int (fadeState (fst (fadeDigit g d ?loc))) * fadeStep g
           \<and> (fadeStep g = digitOffCount g div fadeSteps g
                \<and> int (fadeState d) \<le> fadeSteps g \<longrightarrow>
              on \<le> sw \<and> sw \<le> off \<and> (on < sw \<longleftrightarrow> 1 \<le> fadeStep g))
        else sw = DIGIT_DISPLAY_COUNT \<and> on < sw \<and> off < sw"
        using fadeDigit_order [OF off byte busy' st', of ?loc] sw on offc off
        by (auto simp add: display_consts)
    qed
    have fin: "(if effectiveType g d = SCROLL
             then sw = DIGIT_DISPLAY_OFF \<and> on < sw \<and> off \<le> sw
             else if effectiveType g d \<noteq> FADE
             then sw = DIGIT_DISPLAY_COUNT \<and> on < sw \<and> off < sw
             else on = DIGIT_DISPLAY_ON \<and> off = digitOffCount g
                \<and> (1 \<le> fadeSteps g \<and> fadeSteps g \<le> 255 \<longrightarrow>
                     (if fadeState (fst (fadeDigit g d ?loc)) \<noteq> 0
                      then sw = int (fadeState (fst (fadeDigit g d ?loc))) * fadeStep g
                         \<and> (fadeStep g = digitOffCount g div fadeSteps g
                              \<and> int (fadeState d) \<le> fadeSteps g \<longrightarrow>
                            on \<le> sw \<and> sw \<le> off \<and> (on < sw \<longleftrightarrow> 1 \<le> fadeStep g))
                      else sw = DIGIT_DISPLAY_COUNT \<and> on < sw \<and> off < sw)))"
      unfolding fade using ne on offc main by (simp only: if_False if_True simp_thms)
    show ?thesis
      unfolding dd
      using t sw oo(3-6) fin by blast
  qed
qed


text \<open>
  C8 (as amended). A digit with one of the seven display types and an off count within
  \<open>0, ..., DIGIT_DISPLAY_OFF\<close>, in an impression that assigns the switch step (every
  one but that of an idle Fade digit). The on step is the sentinel
  \<open>DIGIT_DISPLAY_NEVER\<close> exactly in the Blanked and Blink-off configurations and
  \<open>DIGIT_DISPLAY_ON\<close> in all others; the off step is the one the configuration
  prescribes and never exceeds \<open>DIGIT_DISPLAY_OFF\<close>. The on step is below the switch
  step in every such impression, except in a continuing step of a fade with
  \<open>fadeStep = 0\<close>, where both are 0. The switch step is at most the off step in the
  continuing steps of a fade, where it is \<open>fadeState * fadeStep\<close>, with \<open>fadeStep\<close>
  as \<^verbatim>\<open>loop()\<close> computes it and \<open>fadeState\<close> at most \<open>fadeSteps\<close>. In every other
  impression the switch step is not below the off step: it is \<open>DIGIT_DISPLAY_OFF\<close>
  while scrolling and \<open>DIGIT_DISPLAY_COUNT\<close>, beyond every off step, when the digit
  snaps or ends a fade.
\<close>

theorem timing_order:
  assumes i: "i < length (digits st)"
    and valid: "blanked st \<or> displayType (digits st ! i) \<le> BRIGHT"
    and off: "0 \<le> digitOffCount st" "digitOffCount st \<le> DIGIT_DISPLAY_OFF"
    and byte: "fadeState (digits st ! i) \<le> 255"
    and busy: "\<not> (effectiveType st (digits st ! i) = FADE
                  \<and> NumberArray (digits st ! i) = currNumberArray (digits st ! i)
                  \<and> fadeState (digits st ! i) = 0)"
  shows "\<exists>on off sw.
           digitOnTime (snd (outputDisplay st) ! i) = Some on
         \<and> digitOffTime (snd (outputDisplay st) ! i) = Some off
         \<and> digitSwitchTime (snd (outputDisplay st) ! i) = Some sw
         \<and> on = (if configuredType st (digits st ! i) = BLANKED
                     \<or> (configuredType st (digits st ! i) = BLINK \<and> \<not> blinkState st)
                  then DIGIT_DISPLAY_NEVER else DIGIT_DISPLAY_ON)
         \<and> off = (if configuredType st (digits st ! i) = BLANKED
                      \<or> (configuredType st (digits st ! i) = BLINK \<and> \<not> blinkState st)
                   then DIGIT_DISPLAY_ON
                   else if configuredType st (digits st ! i) = DIMMED then DIM_VALUE
                   else if configuredType st (digits st ! i) = BRIGHT then DIGIT_DISPLAY_OFF
                   else digitOffCount st)
         \<and> 0 \<le> off \<and> off \<le> DIGIT_DISPLAY_OFF
         \<and> (if effectiveType st (digits st ! i) = SCROLL
             then sw = DIGIT_DISPLAY_OFF \<and> on < sw \<and> off \<le> sw
             else if effectiveType st (digits st ! i) \<noteq> FADE
             then sw = DIGIT_DISPLAY_COUNT \<and> on < sw \<and> off < sw
             else on = DIGIT_DISPLAY_ON \<and> off = digitOffCount st
                \<and> (1 \<le> fadeSteps st \<and> fadeSteps st \<le> 255 \<longrightarrow>
                     (if fadeState (digits (fst (outputDisplay st)) ! i) \<noteq> 0
                      then sw = int (fadeState (digits (fst (outputDisplay st)) ! i))
                                  * fadeStep st
                         \<and> (fadeStep st = digitOffCount st div fadeSteps st
                              \<and> int (fadeState (digits st ! i)) \<le> fadeSteps st \<longrightarrow>
                            on \<le> sw \<and> sw \<le> off \<and> (on < sw \<longleftrightarrow> 1 \<le> fadeStep st))
                      else sw = DIGIT_DISPLAY_COUNT \<and> on < sw \<and> off < sw)))"
proof -
  have v: "configuredType st (digits st ! i) \<le> BRIGHT"
    using valid by (auto simp add: configuredType_def display_types)
  let ?loc = "if i = 0 then unassigned else snd (outputDisplay st) ! (i - 1)"
  have d: "digits (fst (outputDisplay st)) ! i = fst (displayDigit st (digits st ! i) ?loc)"
    by (simp add: outputDisplay_digit [OF i] fst_displayDigit)
  have t: "snd (outputDisplay st) ! i = snd (displayDigit st (digits st ! i) ?loc)"
    by (rule timingAt_first [OF i])
  show ?thesis
    unfolding t d
    by (rule displayDigit_order [OF v off byte busy])
qed

lemma dayDemo_facts:
  "length (digits dayDemo) = 6" "digits dayDemo ! 0 = mkDigit 7 3 FADE 0"
  "\<not> blanked dayDemo" "fadeSteps dayDemo = 50" "fadeStep dayDemo = 19"
  "digitOffCount dayDemo = 999" "scrollback dayDemo"
  by (simp_all add: dayDemo_def mkDisplay_def loopFadeStep_def)

theorem timing_order_witness:
  "digitOnTime (snd (outputDisplay dayDemo) ! 0) = Some 0
   \<and> digitSwitchTime (snd (outputDisplay dayDemo) ! 0) = Some 931
   \<and> digitOffTime (snd (outputDisplay dayDemo) ! 0) = Some 999
   \<and> configuredType blankedDemo (digits blankedDemo ! 0) = BLANKED
   \<and> digitOnTime (snd (outputDisplay blankedDemo) ! 0) = Some DIGIT_DISPLAY_NEVER
   \<and> digitSwitchTime (snd (outputDisplay blankedDemo) ! 0) = Some 1000
   \<and> digitOffTime (snd (outputDisplay blankedDemo) ! 0) = Some 0"
proof -
  have eff: "effectiveType dayDemo (digits dayDemo ! 0) = FADE"
    "configuredType dayDemo (digits dayDemo ! 0) = FADE"
    by (simp_all add: effectiveType_def configuredType_def dayDemo_facts mkDigit_def)
  have nd: "digits (fst (outputDisplay dayDemo)) ! 0 = (digits dayDemo ! 0)\<lparr>fadeState := 49\<rparr>"
    using impressions_fade [of 0 dayDemo 50 1] eff
    by (simp add: dayDemo_facts mkDigit_def impressions_def)
  have "\<exists>on off sw.
           digitOnTime (snd (outputDisplay dayDemo) ! 0) = Some on
         \<and> digitOffTime (snd (outputDisplay dayDemo) ! 0) = Some off
         \<and> digitSwitchTime (snd (outputDisplay dayDemo) ! 0) = Some sw
         \<and> on = 0 \<and> off = 999 \<and> sw = 931"
    using timing_order [of 0 dayDemo]
    unfolding eff nd
    by (simp add: dayDemo_facts mkDigit_def display_types display_consts)
  then have a: "digitOnTime (snd (outputDisplay dayDemo) ! 0) = Some 0
      \<and> digitSwitchTime (snd (outputDisplay dayDemo) ! 0) = Some 931
      \<and> digitOffTime (snd (outputDisplay dayDemo) ! 0) = Some 999"
    by auto
  have effb: "effectiveType blankedDemo (digits blankedDemo ! 0) = BLANKED"
    "configuredType blankedDemo (digits blankedDemo ! 0) = BLANKED"
    by (simp_all add: effectiveType_def configuredType_def blankedDemo_facts mkDigit_def)
  have "\<exists>on off sw.
           digitOnTime (snd (outputDisplay blankedDemo) ! 0) = Some on
         \<and> digitOffTime (snd (outputDisplay blankedDemo) ! 0) = Some off
         \<and> digitSwitchTime (snd (outputDisplay blankedDemo) ! 0) = Some sw
         \<and> on = DIGIT_DISPLAY_NEVER \<and> off = 0 \<and> sw = 1000"
    using timing_order [of 0 blankedDemo]
    unfolding effb
    by (simp add: blankedDemo_facts mkDigit_def display_types display_consts)
  then have b: "digitOnTime (snd (outputDisplay blankedDemo) ! 0) = Some DIGIT_DISPLAY_NEVER
      \<and> digitSwitchTime (snd (outputDisplay blankedDemo) ! 0) = Some 1000
      \<and> digitOffTime (snd (outputDisplay blankedDemo) ! 0) = Some 0"
    by auto
  from a b effb(2) show ?thesis by simp
qed

text \<open>
  A \<^verbatim>\<open>NORMAL\<close> digit at full brightness runs with on step 0, switch step 1000 and
  off step 999: all three are set and the switch step is beyond the off step. A fading
  digit at the lowest brightness (off count 100) with \<open>fadeSteps = 200\<close> has
  \<open>fadeStep = 0\<close> and runs with on step 0 and switch step 0.
\<close>

lemma dimFadeDemo_facts:
  "length (digits dimFadeDemo) = 6" "digits dimFadeDemo ! 0 = mkDigit 7 3 FADE 0"
  "\<not> blanked dimFadeDemo" "fadeSteps dimFadeDemo = 200" "fadeStep dimFadeDemo = 0"
  "digitOffCount dimFadeDemo = 100" "scrollback dimFadeDemo"
  by (simp_all add: dimFadeDemo_def mkDisplay_def loopFadeStep_def)

theorem timing_order_counterexample:
  "displayType (digits normalDemo ! 0) = NORMAL
   \<and> digitOnTime (snd (outputDisplay normalDemo) ! 0) = Some 0
   \<and> digitSwitchTime (snd (outputDisplay normalDemo) ! 0) = Some 1000
   \<and> digitOffTime (snd (outputDisplay normalDemo) ! 0) = Some 999
   \<and> displayType (digits dimFadeDemo ! 0) = FADE
   \<and> digitOnTime (snd (outputDisplay dimFadeDemo) ! 0) = Some 0
   \<and> digitSwitchTime (snd (outputDisplay dimFadeDemo) ! 0) = Some 0
   \<and> digitOffTime (snd (outputDisplay dimFadeDemo) ! 0) = Some 100"
proof -
  have a: "snd (outputDisplay normalDemo) ! 0 =
      \<lparr>digitOnTime = Some 0, digitOffTime = Some 999, digitSwitchTime = Some 1000\<rparr>"
    using timingAt_first [of 0 normalDemo]
    by (simp add: normalDemo_facts mkDigit_def displayDigit_def effectiveType_def
        configuredType_def onOffTimes_def unassigned_def Let_def display_types display_consts)
  have b: "snd (outputDisplay dimFadeDemo) ! 0 =
      \<lparr>digitOnTime = Some 0, digitOffTime = Some 100, digitSwitchTime = Some 0\<rparr>"
    using timingAt_first [of 0 dimFadeDemo]
    by (simp add: dimFadeDemo_facts mkDigit_def displayDigit_def fadeDigit_def
        effectiveType_def configuredType_def onOffTimes_def unassigned_def Let_def
        byte_of_int_def display_types display_consts)
  show ?thesis
    unfolding a b by (simp add: normalDemo_facts dimFadeDemo_facts mkDigit_def)
qed

end
